theory Spec2Isabelle
  imports Complex_Main "HOL-Library.Multiset"
begin

section \<open>Input validation (lib/input-validation.js, lib/standard-envelope.js)\<close>

subsection \<open>Strings\<close>



text \<open>\<open>Array.prototype.join\<close> on a list of strings.\<close>

fun join :: "string \<Rightarrow> string list \<Rightarrow> string" where
  "join sep [] = []"
| "join sep [x] = x"
| "join sep (x # y # ys) = x @ sep @ join sep (y # ys)"

subsection \<open>The error envelope\<close>

text \<open>
  \<open>ERROR_TYPES\<close>: the values are the strings of the same name.
\<close>

datatype error_type =
  INVALID_INPUT | API_ERROR | NOT_FOUND | RATE_LIMIT | TIMEOUT | VALIDATION_ERROR




subsection \<open>Borough validation\<close>






section \<open>Reliability layer (lib/reliability.js)\<close>

subsection \<open>Values, errors and the platform\<close>

text \<open>
  A JavaScript value as far as the reliability layer and the deduplication helpers look
  at it: its truthiness and its identity. Numbers are the integers; an object or array
  is a reference, equal only to itself.
\<close>

datatype jsval =
  JUndefined | JNull | JBool bool | JNum int | JStr string | JObject nat

fun truthy :: "jsval \<Rightarrow> bool" where
  "truthy JUndefined = False"
| "truthy JNull = False"
| "truthy (JBool b) = b"
| "truthy (JNum n) = (n \<noteq> 0)"
| "truthy (JStr s) = (s \<noteq> [])"
| "truthy (JObject r) = True"

text \<open>
  An error object thrown by a request function: \<open>error.response?.status\<close>
  (\<open>None\<close> when there is no response or no status) and \<open>error.message\<close>.
\<close>

record js_error =
  response_status :: "int option"
  message :: string

text \<open>
  What a function of the layer throws: an error object of the request function, or the
  value \<open>undefined\<close> (the uninitialised \<open>lastError\<close> of \<open>withRetry\<close>).
\<close>

datatype thrown = Thrown js_error | Thrown_undefined

text \<open>
  The platform the module runs on, over the state \<open>'u\<close> of everything outside the
  module: the clock, the random source, the timer and the console, and the two library
  functions behind \<open>getCacheKey\<close>. They are parameters of the model.
\<close>

record ('u, 'p) platform =
  Date_now :: "'u \<Rightarrow> int"
  Math_random :: "'u \<Rightarrow> rat \<times> 'u"
  sleep :: "rat \<Rightarrow> 'u \<Rightarrow> 'u"
  console_warn :: "string \<Rightarrow> int option \<Rightarrow> string \<Rightarrow> 'u \<Rightarrow> 'u"
  md5_hex :: "string \<Rightarrow> string"
  JSON_stringify_sorted :: "'p \<Rightarrow> string"

text \<open>Decimal digits of an integer, as string interpolation prints it.\<close>

fun digits :: "nat \<Rightarrow> string" where
  "digits n =
     (if n < 10 then [''0123456789'' ! n]
      else digits (n div 10) @ [''0123456789'' ! (n mod 10)])"

declare digits.simps [simp del]

definition show_int :: "int \<Rightarrow> string" where
  "show_int i = (if i < 0 then ''-'' @ digits (nat (- i)) else digits (nat i))"

text \<open>
  A property of an options object that is destructured with a default: \<open>None\<close> when the
  caller left it out.
\<close>

definition or_default :: "'a option \<Rightarrow> 'a \<Rightarrow> 'a" where
  "or_default x d = (case x of None \<Rightarrow> d | Some v \<Rightarrow> v)"

subsection \<open>Configuration\<close>

definition CACHE_CONFIG_DEFAULT_TTL :: int where
  "CACHE_CONFIG_DEFAULT_TTL = 5 * 60 * 1000"

definition CACHE_CONFIG_MAX_SIZE :: nat where
  "CACHE_CONFIG_MAX_SIZE = 1000"

definition RATE_LIMITS_HARD_CAPS_max_limit :: int where
  "RATE_LIMITS_HARD_CAPS_max_limit = 10000"

definition RETRY_CONFIG_max_attempts :: int where
  "RETRY_CONFIG_max_attempts = 3"

definition RETRY_CONFIG_base_delay :: rat where
  "RETRY_CONFIG_base_delay = 1000"

definition RETRY_CONFIG_max_delay :: rat where
  "RETRY_CONFIG_max_delay = 30000"

definition RETRY_CONFIG_exponential_base :: rat where
  "RETRY_CONFIG_exponential_base = 2"

definition RETRY_CONFIG_jitter :: rat where
  "RETRY_CONFIG_jitter = 1 / 10"

definition REQUEST_WINDOW :: int where
  "REQUEST_WINDOW = 60 * 1000"

subsection \<open>The query cache\<close>

text \<open>
  \<open>queryCache\<close> is a \<open>Map\<close>: an association list in insertion order. \<open>Map_set\<close> on a
  key that is present replaces the value where it stands; on a new key it appends.
\<close>

record cache_entry =
  data :: jsval
  timestamp :: int
  ttl :: int

type_synonym query_cache = "(string \<times> cache_entry) list"

fun Map_set :: "'k \<Rightarrow> 'v \<Rightarrow> ('k \<times> 'v) list \<Rightarrow> ('k \<times> 'v) list" where
  "Map_set k v [] = [(k, v)]"
| "Map_set k v ((k', v') # xs) =
     (if k' = k then (k, v) # xs else (k', v') # Map_set k v xs)"

definition Map_delete :: "'k \<Rightarrow> ('k \<times> 'v) list \<Rightarrow> ('k \<times> 'v) list" where
  "Map_delete k xs = filter (\<lambda>kv. fst kv \<noteq> k) xs"

definition getCacheKey :: "('u, 'p) platform \<Rightarrow> string \<Rightarrow> 'p \<Rightarrow> string" where
  "getCacheKey pf endpoint params =
     md5_hex pf (endpoint @ '':'' @ JSON_stringify_sorted pf params)"

text \<open>
  \<open>getCached\<close> returns the stored data, or \<open>null\<close> when there is no entry or the entry
  has expired; an expired entry is deleted.
\<close>

definition getCached ::
  "('u, 'p) platform \<Rightarrow> string \<Rightarrow> query_cache \<times> 'u \<Rightarrow> jsval \<times> query_cache" where
  "getCached pf cacheKey st =
     (case st of (qc, u) \<Rightarrow>
        (case map_of qc cacheKey of
           None \<Rightarrow> (JNull, qc)
         | Some c \<Rightarrow>
             let age = Date_now pf u - timestamp c in
             if age > ttl c then (JNull, Map_delete cacheKey qc)
             else (data c, qc)))"

text \<open>
  \<open>setCache\<close>: when the cache is full the first key in insertion order is removed,
  then the entry is stored with the current time.
\<close>

definition setCache ::
  "('u, 'p) platform \<Rightarrow> string \<Rightarrow> jsval \<Rightarrow> int \<Rightarrow> query_cache \<times> 'u \<Rightarrow> query_cache" where
  "setCache pf cacheKey d t st =
     (case st of (qc, u) \<Rightarrow>
        let qc1 = (if length qc \<ge> CACHE_CONFIG_MAX_SIZE
                   then (case qc of [] \<Rightarrow> qc | kv # _ \<Rightarrow> Map_delete (fst kv) qc)
                   else qc)
        in Map_set cacheKey \<lparr> data = d, timestamp = Date_now pf u, ttl = t \<rparr> qc1)"

text \<open>
  The options object of \<open>withCache\<close>; an absent property takes its default.
\<close>

record cache_options =
  opt_ttl :: "int option"
  skipCache :: "bool option"

record cache_result =
  res_data :: jsval
  cached :: bool
  cacheKey :: string

text \<open>
  \<open>withCache(endpoint, params, requestFn, options)\<close>. The request function runs in the
  outside world \<open>'u\<close>, without access to the cache, and either returns a value or
  throws. The second component of the result counts the invocations of \<open>requestFn\<close>
  made by this call.
\<close>

definition withCache ::
  "('u, 'p) platform \<Rightarrow> string \<Rightarrow> 'p \<Rightarrow> ('u \<Rightarrow> (js_error + jsval) \<times> 'u) \<Rightarrow> cache_options
     \<Rightarrow> query_cache \<times> 'u \<Rightarrow> (js_error + cache_result) \<times> nat \<times> (query_cache \<times> 'u)" where
  "withCache pf endpoint params requestFn options st =
     (case st of (qc, u) \<Rightarrow>
        let t = or_default (opt_ttl options) CACHE_CONFIG_DEFAULT_TTL;
            skip = or_default (skipCache options) False;
            key = getCacheKey pf endpoint params;
            (c, qc1) = (if \<not> skip then getCached pf key (qc, u) else (JNull, qc))
        in
          if \<not> skip \<and> truthy c
          then (Inr \<lparr> res_data = c, cached = True, cacheKey = key \<rparr>, 0, (qc1, u))
          else
            (case requestFn u of
               (Inl e, u1) \<Rightarrow> (Inl e, 1, (qc1, u1))
             | (Inr d, u1) \<Rightarrow>
                 (Inr \<lparr> res_data = d, cached = False, cacheKey = key \<rparr>, 1,
                  (setCache pf key d t (qc1, u1), u1))))"

subsection \<open>Retry with exponential backoff\<close>

record tracker =
  requestCount :: nat
  requestWindow :: int

definition trackRequest :: "('u, 'p) platform \<Rightarrow> tracker \<times> 'u \<Rightarrow> tracker" where
  "trackRequest pf st =
     (case st of (tr, u) \<Rightarrow>
        let now = Date_now pf u;
            tr1 = (if now - requestWindow tr > REQUEST_WINDOW
                   then \<lparr> requestCount = 0, requestWindow = now \<rparr> else tr)
        in tr1 \<lparr> requestCount := requestCount tr1 + 1 \<rparr>)"

record retry_options =
  maxAttempts :: "int option"
  baseDelay :: "rat option"
  maxDelay :: "rat option"
  exponentialBase :: "rat option"
  jitter :: "rat option"

text \<open>\<open>Math.round\<close> on a rational.\<close>

definition Math_round :: "rat \<Rightarrow> int" where
  "Math_round x = \<lfloor>x + 1 / 2\<rfloor>"

text \<open>
  \<open>status && status >= 400 && status < 500 && status !== 429\<close>: the errors that are
  thrown on at once.
\<close>

definition fatal_status :: "int option \<Rightarrow> bool" where
  "fatal_status status =
     (case status of
        None \<Rightarrow> False
      | Some s \<Rightarrow> s \<noteq> 0 \<and> s \<ge> 400 \<and> s < 500 \<and> s \<noteq> 429)"

text \<open>
  What happens between a failed attempt and the next one: the delay is computed, the
  warning is written and the timer runs.
\<close>

definition backoff ::
  "('u, 'p) platform \<Rightarrow> retry_options \<Rightarrow> nat \<Rightarrow> js_error \<Rightarrow> 'u \<Rightarrow> 'u" where
  "backoff pf options attempt err u =
     (let maxA = or_default (maxAttempts options) RETRY_CONFIG_max_attempts;
          exponentialDelay =
            min (or_default (baseDelay options) RETRY_CONFIG_base_delay
                   * or_default (exponentialBase options) RETRY_CONFIG_exponential_base ^ attempt)
                (or_default (maxDelay options) RETRY_CONFIG_max_delay);
          (r, u1) = Math_random pf u;
          jitterAmount =
            exponentialDelay * or_default (jitter options) RETRY_CONFIG_jitter * (r - 1 / 2) * 2;
          delay = exponentialDelay + jitterAmount;
          u2 = console_warn pf
                 (''Request failed (attempt '' @ show_int (int attempt + 1) @ ''/'' @ show_int maxA
                    @ ''), retrying in '' @ show_int (Math_round delay) @ ''ms...'')
                 (response_status err) (message err) u1
      in sleep pf delay u2)"

text \<open>
  The \<open>for\<close> loop of \<open>withRetry\<close>, from the value \<open>attempt\<close> of its counter. The
  second component of the result counts the invocations of \<open>requestFn\<close>.
\<close>

function withRetry_loop ::
  "('u, 'p) platform \<Rightarrow> ('u \<Rightarrow> (js_error + 'a) \<times> 'u) \<Rightarrow> retry_options \<Rightarrow> nat \<Rightarrow> thrown
     \<Rightarrow> tracker \<times> 'u \<Rightarrow> (thrown + 'a) \<times> nat \<times> (tracker \<times> 'u)" where
  "withRetry_loop pf requestFn options attempt lastError st =
     (if int attempt < or_default (maxAttempts options) RETRY_CONFIG_max_attempts
      then
        (let tr1 = trackRequest pf st in
         case requestFn (snd st) of
           (Inr result, u1) \<Rightarrow> (Inr result, 1, (tr1, u1))
         | (Inl err, u1) \<Rightarrow>
             if fatal_status (response_status err) then (Inl (Thrown err), 1, (tr1, u1))
             else if int attempt = or_default (maxAttempts options) RETRY_CONFIG_max_attempts - 1
               then (Inl (Thrown err), 1, (tr1, u1))
             else
               (case withRetry_loop pf requestFn options (Suc attempt) (Thrown err)
                       (tr1, backoff pf options attempt err u1) of
                  (res, n, st') \<Rightarrow> (res, Suc n, st')))
      else (Inl lastError, 0, st))"
  by pat_completeness auto
termination
  by (relation "measure (\<lambda>(pf, requestFn, options, attempt, lastError, st).
        nat (or_default (maxAttempts options) RETRY_CONFIG_max_attempts - int attempt))") auto

declare withRetry_loop.simps [simp del]

definition withRetry ::
  "('u, 'p) platform \<Rightarrow> ('u \<Rightarrow> (js_error + 'a) \<times> 'u) \<Rightarrow> retry_options
     \<Rightarrow> tracker \<times> 'u \<Rightarrow> (thrown + 'a) \<times> nat \<times> (tracker \<times> 'u)" where
  "withRetry pf requestFn options st = withRetry_loop pf requestFn options 0 Thrown_undefined st"

subsection \<open>Auto-pagination\<close>

record paginate_options =
  maxRecords :: "int option"
  pageSize :: "int option"
  maxPages :: "int option"

text \<open>\<open>xs.slice(0, n)\<close>: a negative \<open>n\<close> counts from the end.\<close>

definition slice0 :: "'a list \<Rightarrow> int \<Rightarrow> 'a list" where
  "slice0 xs n = (if n < 0 then take (nat (int (length xs) + n)) xs else take (nat n) xs)"

text \<open>
  The \<open>while\<close> loop of \<open>autoPaginate\<close>. A page is \<open>None\<close> when the request function
  returns \<open>null\<close> or \<open>undefined\<close>. The loop yields \<open>allRecords\<close> as it stands at the
  exit, and the number of invocations of \<open>requestFn\<close>.
\<close>

function autoPaginate_loop ::
  "(int \<Rightarrow> int \<Rightarrow> 'u \<Rightarrow> (js_error + 'r list option) \<times> 'u) \<Rightarrow> int \<Rightarrow> int \<Rightarrow> int
     \<Rightarrow> 'r list \<Rightarrow> int \<Rightarrow> int \<Rightarrow> 'u \<Rightarrow> (js_error + 'r list) \<times> nat \<times> 'u" where
  "autoPaginate_loop requestFn maxR pageS maxP allRecords offset page u =
     (if page < maxP \<and> int (length allRecords) < maxR
      then
        (case requestFn offset pageS u of
           (Inl e, u1) \<Rightarrow> (Inl e, 1, u1)
         | (Inr None, u1) \<Rightarrow> (Inr allRecords, 1, u1)
         | (Inr (Some records), u1) \<Rightarrow>
             if records = [] then (Inr allRecords, 1, u1)
             else if int (length (allRecords @ records)) \<ge> maxR
               then (Inr (allRecords @ records), 1, u1)
             else if int (length records) < pageS
               then (Inr (allRecords @ records), 1, u1)
             else
               (case autoPaginate_loop requestFn maxR pageS maxP (allRecords @ records)
                       (offset + pageS) (page + 1) u1 of
                  (res, n, u2) \<Rightarrow> (res, Suc n, u2)))
      else (Inr allRecords, 0, u))"
  by pat_completeness auto
termination
  by (relation "measure (\<lambda>(requestFn, maxR, pageS, maxP, allRecords, offset, page, u).
        nat (maxP - page))") auto

declare autoPaginate_loop.simps [simp del]

definition autoPaginate ::
  "(int \<Rightarrow> int \<Rightarrow> 'u \<Rightarrow> (js_error + 'r list option) \<times> 'u) \<Rightarrow> paginate_options
     \<Rightarrow> 'u \<Rightarrow> (js_error + 'r list) \<times> nat \<times> 'u" where
  "autoPaginate requestFn options u =
     (let maxR = or_default (maxRecords options) RATE_LIMITS_HARD_CAPS_max_limit;
          pageS = or_default (pageSize options) 1000;
          maxP = or_default (maxPages options) 10
      in case autoPaginate_loop requestFn maxR pageS maxP [] 0 0 u of
           (Inl e, n, u1) \<Rightarrow> (Inl e, n, u1)
         | (Inr allRecords, n, u1) \<Rightarrow> (Inr (slice0 allRecords maxR), n, u1))"

section \<open>Time windows (lib/time-windows.js)\<close>

text \<open>
  A \<open>Date\<close> is its time value, the milliseconds since the epoch, taken within the
  range that a \<open>Date\<close> can hold. Local time is at a fixed offset \<open>tzo\<close> (in
  milliseconds) from UTC, without daylight saving changes.
\<close>

definition msPerDay :: int where
  "msPerDay = 1000 * 60 * 60 * 24"

text \<open>\<open>d.setHours(h, m, s, ms)\<close>: the same local calendar day, at the given time.\<close>

definition setHours :: "int \<Rightarrow> int \<Rightarrow> int \<Rightarrow> int \<Rightarrow> int \<Rightarrow> int \<Rightarrow> int" where
  "setHours tzo t h m s ms =
     ((t + tzo) div msPerDay) * msPerDay + h * 3600000 + m * 60000 + s * 1000 + ms - tzo"

text \<open>\<open>d.setDate(d.getDate() - n)\<close>: the same local time, \<open>n\<close> calendar days earlier.\<close>

definition setDate_back :: "int \<Rightarrow> int \<Rightarrow> int" where
  "setDate_back t n = t - n * msPerDay"





text \<open>
  The argument of \<open>getCustomWindow\<close> is any JavaScript value; \<open>Number.isInteger\<close> holds
  of the finite numbers without a fractional part only.
\<close>

datatype jsarg =
  Num rat | NaN | PosInfinity | NegInfinity | NotANumber jsval

definition Number_isInteger :: "jsarg \<Rightarrow> bool" where
  "Number_isInteger v = (case v of Num q \<Rightarrow> q = of_int \<lfloor>q\<rfloor> | _ \<Rightarrow> False)"

text \<open>
  The window object; \<open>start\<close> and \<open>end\<close> are the instants that the ISO strings of the
  source denote.
\<close>

record time_window =
  start :: int
  end' :: int
  days :: int
  type :: string

text \<open>
  \<open>getCustomWindow(days)\<close> at the instant \<open>now\<close>. \<open>to_string\<close> is the conversion that
  the template literal of the error message applies to the argument.
\<close>

definition getCustomWindow ::
  "(jsarg \<Rightarrow> string) \<Rightarrow> int \<Rightarrow> int \<Rightarrow> jsarg \<Rightarrow> string + time_window" where
  "getCustomWindow to_string tzo now d =
     (case d of
        Num q \<Rightarrow>
          if \<not> Number_isInteger d \<or> q \<le> 0
          then Inl (''Days must be a positive integer, got: '' @ to_string d)
          else
            let e = setHours tzo now 23 59 59 999;
                s0 = setDate_back e \<lfloor>q\<rfloor>;
                s = setHours tzo s0 0 0 0 0
            in Inr \<lparr> start = s, end' = e, days = \<lfloor>q\<rfloor>, type = ''custom'' \<rparr>
      | _ \<Rightarrow> Inl (''Days must be a positive integer, got: '' @ to_string d))"

section \<open>Trend calculation (nyc-311 analyze_trends_v2.js, test/trend-calculations.test.js)\<close>

record timeline_entry =
  period :: string
  count :: int

text \<open>
  \<open>x.toFixed(2)\<close> on a rational: the sign, the integer part, a point and two digits,
  rounded to the nearest hundredth with halves away from zero.
\<close>

definition toFixed2 :: "rat \<Rightarrow> string" where
  "toFixed2 x =
     (let n = nat \<lfloor>\<bar>x\<bar> * 100 + 1 / 2\<rfloor> in
      (if x < 0 then ''-'' else []) @ digits (n div 100) @ ''.''
        @ [''0123456789'' ! (n div 10 mod 10), ''0123456789'' ! (n mod 10)])"

text \<open>\<open>parseFloat(x.toFixed(2))\<close>.\<close>

definition round2 :: "rat \<Rightarrow> rat" where
  "round2 x = (if x < 0 then - 1 else 1) * of_int \<lfloor>\<bar>x\<bar> * 100 + 1 / 2\<rfloor> / 100"

text \<open>\<open>xs.slice(-7)\<close> and \<open>xs.slice(-14, -7)\<close>.\<close>

definition slice_last7 :: "'a list \<Rightarrow> 'a list" where
  "slice_last7 xs = drop (length xs - 7) xs"

definition slice_prev7 :: "'a list \<Rightarrow> 'a list" where
  "slice_prev7 xs = take (length xs - 7 - (length xs - 14)) (drop (length xs - 14) xs)"

text \<open>\<open>ps.reduce((sum, p) => sum + p.count, 0) / ps.length\<close>.\<close>

definition average :: "timeline_entry list \<Rightarrow> rat" where
  "average ps = of_int (fold (\<lambda>p sum. sum + count p) ps 0) / of_nat (length ps)"

record trend =
  direction :: string
  percentage_change :: string
  recent_avg :: rat
  previous_avg :: rat

text \<open>The body shared by the tool and by the function the tests extract from it.\<close>

definition trend_of :: "timeline_entry list \<Rightarrow> trend" where
  "trend_of timeline =
     (let recentPeriods = slice_last7 timeline;
          previousPeriods = slice_prev7 timeline;
          recentAvg = average recentPeriods;
          previousAvg = average previousPeriods;
          percentageChange =
            (if previousAvg > 0 then (recentAvg - previousAvg) / previousAvg * 100
             else if recentAvg > 0 then 999
             else 0)
      in \<lparr> direction = (if percentageChange > 0 then ''increasing''
                        else if percentageChange < 0 then ''decreasing'' else ''stable''),
           percentage_change = toFixed2 percentageChange,
           recent_avg = round2 recentAvg,
           previous_avg = round2 previousAvg \<rparr>)"

text \<open>\<open>calculateTrend(timeline)\<close> of the tests; \<open>None\<close> is \<open>null\<close>.\<close>

definition calculateTrend :: "timeline_entry list \<Rightarrow> trend option" where
  "calculateTrend timeline =
     (if length timeline < 14 then None else Some (trend_of timeline))"

text \<open>The \<open>trend\<close> that \<open>analyzeTrends\<close> puts into \<open>meta\<close>.\<close>

definition analyzeTrends_trend :: "timeline_entry list \<Rightarrow> trend option" where
  "analyzeTrends_trend timeline =
     (if length timeline \<ge> 14 then Some (trend_of timeline) else None)"

section \<open>Deduplication (test/deduplication.test.js)\<close>

text \<open>
  A record of \<open>deduplicateRecords\<close> is any object: its properties in an association
  list; a property that is not there reads as \<open>undefined\<close>.
\<close>

type_synonym jsobject = "(string \<times> jsval) list"

definition get_prop :: "jsobject \<Rightarrow> string \<Rightarrow> jsval" where
  "get_prop r f = (case map_of r f of None \<Rightarrow> JUndefined | Some v \<Rightarrow> v)"

record dedup_result =
  records :: "jsobject list"
  original_count :: nat
  deduplicated_count :: nat
  duplicates_removed :: nat

text \<open>
  One turn of the \<open>forEach\<close> of \<open>deduplicateRecords\<close>, on the triple of \<open>seen\<close>,
  \<open>deduplicated\<close> and \<open>duplicateCount\<close>.
\<close>

definition dedup_step ::
  "string \<Rightarrow> jsobject \<Rightarrow> jsval set \<times> jsobject list \<times> nat \<Rightarrow> jsval set \<times> jsobject list \<times> nat" where
  "dedup_step keyField r st =
     (case st of (seen, deduplicated, duplicateCount) \<Rightarrow>
        let key = get_prop r keyField in
        if \<not> truthy key then (seen, deduplicated @ [r], duplicateCount)
        else if key \<in> seen then (seen, deduplicated, duplicateCount + 1)
        else (insert key seen, deduplicated @ [r], duplicateCount))"

definition deduplicateRecords :: "jsobject list \<Rightarrow> string \<Rightarrow> dedup_result" where
  "deduplicateRecords rs keyField =
     (case fold (dedup_step keyField) rs ({}, [], 0) of
        (seen, deduplicated, duplicateCount) \<Rightarrow>
          \<lparr> records = deduplicated, original_count = length rs,
            deduplicated_count = length deduplicated, duplicates_removed = duplicateCount \<rparr>)"

text \<open>
  A record of \<open>deduplicateAggregated\<close> has a \<open>period\<close>, a \<open>count\<close> and a \<open>topic\<close>, and
  any further properties.
\<close>

record agg_record = timeline_entry +
  topic :: string

definition agg_key :: "'a agg_record_scheme \<Rightarrow> string" where
  "agg_key r = period r @ ''|'' @ topic r"

definition agg_step ::
  "'a agg_record_scheme \<Rightarrow> (string \<times> 'a agg_record_scheme) list
     \<Rightarrow> (string \<times> 'a agg_record_scheme) list" where
  "agg_step r aggregated =
     (let key = agg_key r in
      case map_of aggregated key of
        Some existing \<Rightarrow> Map_set key (existing \<lparr> count := count existing + count r \<rparr>) aggregated
      | None \<Rightarrow> Map_set key r aggregated)"

definition deduplicateAggregated :: "'a agg_record_scheme list \<Rightarrow> 'a agg_record_scheme list" where
  "deduplicateAggregated rs = map snd (fold agg_step rs [])"

section \<open>Street closures (nyc-dot search_street_closures.js)\<close>

text \<open>
  A raw row of the response is a JSON object with string values; a property that is not
  there is \<open>None\<close>, and a template literal prints it as \<open>undefined\<close>.
\<close>

type_synonym raw_row = "(string \<times> string) list"

definition template :: "string option \<Rightarrow> string" where
  "template v = (case v of None \<Rightarrow> ''undefined'' | Some s \<Rightarrow> s)"

record closure =
  segment_id :: "string option"
  work_start_date :: "string option"
  work_end_date :: "string option"
  on_street :: "string option"
  from_street :: "string option"
  to_street :: "string option"
  borough_code :: "string option"
  borough :: "string option"
  purposes :: "string list"
  purpose_merged :: string
  cd :: "string option"
  geometry :: "string option"
  unique_id :: "string option"

definition mapBoroughCode :: "string option \<Rightarrow> string option" where
  "mapBoroughCode code =
     (case code of
        None \<Rightarrow> None
      | Some c \<Rightarrow>
          (case map_of [(''M'', ''MANHATTAN''), (''X'', ''BRONX''), (''B'', ''BROOKLYN''),
                        (''Q'', ''QUEENS''), (''S'', ''STATEN ISLAND'')] c of
             Some n \<Rightarrow> Some n
           | None \<Rightarrow> Some c))"

definition closure_key :: "raw_row \<Rightarrow> string" where
  "closure_key row =
     template (map_of row ''segmentid'') @ ''|'' @ template (map_of row ''work_start_date'')
       @ ''|'' @ template (map_of row ''work_end_date'')"

text \<open>\<open>closure.purpose\<close> when it is truthy: present and not the empty string.\<close>

definition truthy_purpose :: "raw_row \<Rightarrow> string option" where
  "truthy_purpose row =
     (case map_of row ''purpose'' of
        None \<Rightarrow> None
      | Some p \<Rightarrow> if p = [] then None else Some p)"

text \<open>The object that the loop stores for a row with a new key.\<close>

definition new_closure :: "raw_row \<Rightarrow> closure" where
  "new_closure row =
     \<lparr> segment_id = map_of row ''segmentid'',
       work_start_date = map_of row ''work_start_date'',
       work_end_date = map_of row ''work_end_date'',
       on_street = map_of row ''onstreetname'',
       from_street = map_of row ''fromstreetname'',
       to_street = map_of row ''tostreetname'',
       borough_code = map_of row ''borough_code'',
       borough = mapBoroughCode (map_of row ''borough_code''),
       purposes = (case truthy_purpose row of Some p \<Rightarrow> [p] | None \<Rightarrow> []),
       purpose_merged = (case truthy_purpose row of Some p \<Rightarrow> p | None \<Rightarrow> ''Unknown''),
       cd = None,
       geometry = map_of row ''the_geom'',
       unique_id = map_of row ''uniqueid'' \<rparr>"

text \<open>One turn of the \<open>forEach\<close> over \<open>response.data\<close>, on \<open>closureMap\<close>.\<close>

definition closure_step :: "raw_row \<Rightarrow> (string \<times> closure) list \<Rightarrow> (string \<times> closure) list" where
  "closure_step row closureMap =
     (let key = closure_key row in
      case map_of closureMap key of
        Some existing \<Rightarrow>
          (case truthy_purpose row of
             Some p \<Rightarrow>
               if p \<notin> set (purposes existing)
               then Map_set key
                      (existing \<lparr> purposes := purposes existing @ [p],
                                  purpose_merged := join ''; '' (purposes existing @ [p]) \<rparr>)
                      closureMap
               else closureMap
           | None \<Rightarrow> closureMap)
      | None \<Rightarrow> Map_set key (new_closure row) closureMap)"

text \<open>
  \<open>Array.from(closureMap.values())\<close> after the loop: the merged closures, before the
  tool adds the activity fields to each and sorts them.
\<close>

definition dedupedClosures :: "raw_row list \<Rightarrow> closure list" where
  "dedupedClosures rows = map snd (fold closure_step rows [])"

text \<open>The composite key of a merged closure, from the three fields it keeps.\<close>

definition merged_key :: "closure \<Rightarrow> string" where
  "merged_key c =
     template (segment_id c) @ ''|'' @ template (work_start_date c) @ ''|''
       @ template (work_end_date c)"

section \<open>Notions for the statements\<close>

subsection \<open>Deduplication by key\<close>

text \<open>
  The record at position \<open>i\<close> repeats a key: its key is truthy and an earlier record has
  the same key, as the same value of the same type.
\<close>

definition repeats_key :: "string \<Rightarrow> jsobject list \<Rightarrow> nat \<Rightarrow> bool" where
  "repeats_key keyField rs i \<longleftrightarrow>
     truthy (get_prop (rs ! i) keyField) \<and>
     (\<exists>j<i. get_prop (rs ! j) keyField = get_prop (rs ! i) keyField)"

text \<open>The three components of the loop state after the records \<open>rs\<close>.\<close>

definition seen_after :: "string \<Rightarrow> jsobject list \<Rightarrow> jsval set" where
  "seen_after kf rs = {k \<in> (\<lambda>x. get_prop x kf) ` set rs. truthy k}"

definition kept_after :: "string \<Rightarrow> jsobject list \<Rightarrow> jsobject list" where
  "kept_after kf rs = map ((!) rs) (filter (\<lambda>i. \<not> repeats_key kf rs i) [0..<length rs])"

definition dropped_after :: "string \<Rightarrow> jsobject list \<Rightarrow> nat" where
  "dropped_after kf rs = length (filter (repeats_key kf rs) [0..<length rs])"

subsection \<open>Street closures\<close>

text \<open>
  The purposes of the raw rows with the composite key \<open>k\<close>: the truthy values of their
  \<open>purpose\<close> property.
\<close>

definition purposes_of :: "raw_row list \<Rightarrow> string \<Rightarrow> string set" where
  "purposes_of rows k =
     {p. \<exists>row \<in> set rows. closure_key row = k \<and> truthy_purpose row = Some p}"

subsection \<open>Test doubles\<close>

text \<open>
  An outside world for concrete runs: a clock and the script of a mock request function,
  which replays one outcome of the script per invocation and throws an error without a
  status once the script is used up.
\<close>

record test_world =
  clock :: int
  script :: "(js_error + jsval) list"

definition replay :: "test_world \<Rightarrow> (js_error + jsval) \<times> test_world" where
  "replay u =
     (case script u of
        [] \<Rightarrow> (Inl \<lparr> response_status = None, message = ''script used up'' \<rparr>, u)
      | x # xs \<Rightarrow> (x, u \<lparr> script := xs \<rparr>))"

text \<open>
  A platform on that world: the clock is read from the world, the random source always
  yields one half, the timer moves the clock by the whole milliseconds of the delay, the
  console is dropped, and the cache key is the text that the hash would be taken of.
\<close>

definition test_platform :: "(test_world, string) platform" where
  "test_platform =
     \<lparr> Date_now = clock,
       Math_random = (\<lambda>u. (1 / 2, u)),
       sleep = (\<lambda>d u. u \<lparr> clock := clock u + \<lfloor>d\<rfloor> \<rparr>),
       console_warn = (\<lambda>text status msg u. u),
       md5_hex = (\<lambda>s. s),
       JSON_stringify_sorted = (\<lambda>p. p) \<rparr>"

text \<open>
  A paged data source: the request at \<open>offset\<close> with \<open>limit\<close> returns that slice of the
  list, and the world counts the requests.
\<close>

definition page_source :: "'r list \<Rightarrow> int \<Rightarrow> int \<Rightarrow> nat \<Rightarrow> (js_error + 'r list option) \<times> nat" where
  "page_source rows offset limit n =
     (Inr (Some (take (nat limit) (drop (nat offset) rows))), Suc n)"

section \<open>Borough validation: properties\<close>













section \<open>Trend calculation: properties\<close>

lemma floor_99900_half: "\<lfloor>\<bar>999::rat\<bar> * 100 + 1 / 2\<rfloor> = 99900"
  by (simp add: floor_eq_iff)

lemma floor_0_half: "\<lfloor>\<bar>0::rat\<bar> * 100 + 1 / 2\<rfloor> = 0"
  by (simp add: floor_eq_iff)

lemma toFixed2_999: "toFixed2 999 = ''999.00''"
  unfolding toFixed2_def floor_99900_half by (simp add: digits.simps)

lemma toFixed2_0: "toFixed2 0 = ''0.00''"
  unfolding toFixed2_def floor_0_half by (simp add: digits.simps)

lemma trend_of_clamped:
  assumes "average (slice_prev7 tline) = 0" and "average (slice_last7 tline) > 0"
  shows "percentage_change (trend_of tline) = ''999.00'' \<and>
         direction (trend_of tline) = ''increasing''"
  using assms by (simp add: trend_of_def Let_def toFixed2_999)

lemma trend_of_stable:
  assumes "average (slice_prev7 tline) = 0" and "average (slice_last7 tline) = 0"
  shows "percentage_change (trend_of tline) = ''0.00'' \<and> direction (trend_of tline) = ''stable''"
  using assms by (simp add: trend_of_def Let_def toFixed2_0)

lemma slices_of_long_timeline:
  assumes "14 \<le> length tline"
  shows "length (slice_prev7 tline) = 7 \<and> length (slice_last7 tline) = 7 \<and>
         slice_prev7 tline @ slice_last7 tline = drop (length tline - 14) tline"
proof -
  have "length tline - 7 - (length tline - 14) = 7"
    using assms by simp
  moreover have "drop (length tline - 7) tline = drop 7 (drop (length tline - 14) tline)"
    using assms by simp
  ultimately show ?thesis
    using assms by (simp add: slice_prev7_def slice_last7_def del: drop_drop)
qed

lemma trend_same_in_tool_and_test: "analyzeTrends_trend tline = calculateTrend tline"
  by (simp add: analyzeTrends_trend_def calculateTrend_def)

text \<open>
  Claim C2. On a timeline of at least 14 periods the two windows are the last seven
  periods and the seven before them. When the average of the previous window is 0 and
  the average of the recent window is positive, the trend has \<open>percentage_change\<close>
  \<open>999.00\<close> and direction \<open>increasing\<close>; when both averages are 0 it has \<open>0.00\<close> and
  \<open>stable\<close>. On fewer than 14 periods the result is \<open>null\<close>. This holds of the trend of
  the tool and of the function the tests extract from it.
\<close>

theorem trend_divide_by_zero_policy:
  "(14 \<le> length tline \<longrightarrow>
      length (slice_prev7 tline) = 7 \<and> length (slice_last7 tline) = 7 \<and>
      slice_prev7 tline @ slice_last7 tline = drop (length tline - 14) tline)
   \<and> (14 \<le> length tline \<and> average (slice_prev7 tline) = 0 \<and> 0 < average (slice_last7 tline) \<longrightarrow>
        (\<exists>t. calculateTrend tline = Some t \<and> analyzeTrends_trend tline = Some t \<and>
             percentage_change t = ''999.00'' \<and> direction t = ''increasing''))
   \<and> (14 \<le> length tline \<and> average (slice_prev7 tline) = 0 \<and> average (slice_last7 tline) = 0 \<longrightarrow>
        (\<exists>t. calculateTrend tline = Some t \<and> analyzeTrends_trend tline = Some t \<and>
             percentage_change t = ''0.00'' \<and> direction t = ''stable''))
   \<and> (length tline < 14 \<longrightarrow> calculateTrend tline = None \<and> analyzeTrends_trend tline = None)"
  using slices_of_long_timeline [of tline] trend_of_clamped [of tline] trend_of_stable [of tline]
  by (simp add: trend_same_in_tool_and_test calculateTrend_def)

theorem trend_divide_by_zero_policy_witness:
  "map_option percentage_change
     (calculateTrend (map (\<lambda>c. \<lparr> period = ''2025-10'', count = c \<rparr>)
        [9, 0, 0, 0, 0, 0, 0, 0, 3, 0, 1, 0, 0, 2, 5])) = Some ''999.00''
   \<and> map_option direction
     (analyzeTrends_trend (map (\<lambda>c. \<lparr> period = ''2025-10'', count = c \<rparr>)
        [9, 0, 0, 0, 0, 0, 0, 0, 3, 0, 1, 0, 0, 2, 5])) = Some ''increasing''
   \<and> map_option percentage_change
     (calculateTrend (map (\<lambda>c. \<lparr> period = ''2025-10'', count = c \<rparr>)
        [0, 0, 0, 0, 0, 0, 0, 0, 0, 0, 0, 0, 0, 0])) = Some ''0.00''
   \<and> map_option direction
     (calculateTrend (map (\<lambda>c. \<lparr> period = ''2025-10'', count = c \<rparr>)
        [0, 0, 0, 0, 0, 0, 0, 0, 0, 0, 0, 0, 0, 0])) = Some ''stable''
   \<and> calculateTrend (map (\<lambda>c. \<lparr> period = ''2025-10'', count = c \<rparr>)
        [0, 0, 0, 0, 0, 0, 4, 4, 4, 4, 4, 4, 4]) = None"
  using trend_divide_by_zero_policy
          [of "map (\<lambda>c. \<lparr> period = ''2025-10'', count = c \<rparr>)
                 [9, 0, 0, 0, 0, 0, 0, 0, 3, 0, 1, 0, 0, 2, 5]"]
        trend_divide_by_zero_policy
          [of "map (\<lambda>c. \<lparr> period = ''2025-10'', count = c \<rparr>)
                 [0, 0, 0, 0, 0, 0, 0, 0, 0, 0, 0, 0, 0, 0]"]
        trend_divide_by_zero_policy
          [of "map (\<lambda>c. \<lparr> period = ''2025-10'', count = c \<rparr>)
                 [0, 0, 0, 0, 0, 0, 4, 4, 4, 4, 4, 4, 4]"]
  by (auto simp: average_def slice_prev7_def slice_last7_def)

section \<open>Time windows: properties\<close>


lemma div_known:
  fixes q :: int
  assumes "x = q * m + r" and "0 \<le> r" and "r < m"
  shows "x div m = q"
  using assms by simp



lemma setHours_day_end:
  "setHours tzo t 23 59 59 999 = ((t + tzo) div msPerDay) * msPerDay + 86399999 - tzo"
  by (simp add: setHours_def)

lemma setHours_day_start:
  "setHours tzo t 0 0 0 0 = ((t + tzo) div msPerDay) * msPerDay - tzo"
  by (simp add: setHours_def)

lemma start_from_end:
  fixes D n :: int
  shows "setHours tzo (setDate_back (D * msPerDay + 86399999 - tzo) n) 0 0 0 0
           = (D - n) * msPerDay - tzo"
proof -
  have "(setDate_back (D * msPerDay + 86399999 - tzo) n + tzo) div msPerDay = D - n"
    by (rule div_known [where r = 86399999])
       (simp_all add: setDate_back_def msPerDay_def algebra_simps)
  then show ?thesis
    by (simp only: setHours_day_start)
qed


lemma getCustomWindow_positive:
  assumes "0 < n"
  shows "getCustomWindow to_string tzo now (Num (of_int n)) =
           Inr \<lparr> start = ((now + tzo) div msPerDay - n) * msPerDay - tzo,
                 end' = ((now + tzo) div msPerDay) * msPerDay + 86399999 - tzo,
                 days = n, type = ''custom'' \<rparr>"
  using assms
  by (simp add: getCustomWindow_def Number_isInteger_def Let_def setHours_day_end
        start_from_end)





text \<open>The window of the witness, computed.\<close>

lemma getCustomWindow_example:
  "getCustomWindow to_string (- 18000000) 1793692664235 (Num 30) =
     Inr \<lparr> start = 1791090000000, end' = 1793768399999, days = 30, type = ''custom'' \<rparr>"
  using getCustomWindow_positive [of 30 to_string "- 18000000" 1793692664235]
  by (simp add: msPerDay_def)

section \<open>Deduplication by key: properties\<close>

lemma repeats_key_append:
  assumes "i < length rs"
  shows "repeats_key kf (rs @ [r]) i = repeats_key kf rs i"
proof -
  have "\<And>j. j < i \<Longrightarrow> (rs @ [r]) ! j = rs ! j"
    using assms by (simp add: nth_append)
  moreover have "(rs @ [r]) ! i = rs ! i"
    using assms by (simp add: nth_append)
  ultimately show ?thesis
    by (simp add: repeats_key_def cong: conj_cong)
qed

lemma earlier_key_iff:
  "(\<exists>j<length rs. get_prop ((rs @ [r]) ! j) kf = k) \<longleftrightarrow> k \<in> (\<lambda>x. get_prop x kf) ` set rs"
proof
  assume "\<exists>j<length rs. get_prop ((rs @ [r]) ! j) kf = k"
  then obtain j where j: "j < length rs" and "get_prop ((rs @ [r]) ! j) kf = k"
    by blast
  then have "get_prop (rs ! j) kf = k"
    by (simp add: nth_append)
  with j show "k \<in> (\<lambda>x. get_prop x kf) ` set rs"
    by (metis imageI nth_mem)
next
  assume "k \<in> (\<lambda>x. get_prop x kf) ` set rs"
  then obtain x where "x \<in> set rs" and k: "k = get_prop x kf"
    by blast
  then obtain j where j: "j < length rs" and "rs ! j = x"
    by (auto simp: in_set_conv_nth)
  then have "get_prop ((rs @ [r]) ! j) kf = k"
    by (simp add: nth_append k)
  with j show "\<exists>j<length rs. get_prop ((rs @ [r]) ! j) kf = k"
    by blast
qed

lemma repeats_key_last:
  "repeats_key kf (rs @ [r]) (length rs) \<longleftrightarrow>
     truthy (get_prop r kf) \<and> get_prop r kf \<in> (\<lambda>x. get_prop x kf) ` set rs"
  unfolding repeats_key_def by (simp only: nth_append_length earlier_key_iff)

lemma dedup_step_apply:
  "dedup_step kf r (seen, deduplicated, duplicateCount) =
     (if \<not> truthy (get_prop r kf) then (seen, deduplicated @ [r], duplicateCount)
      else if get_prop r kf \<in> seen then (seen, deduplicated, duplicateCount + 1)
      else (insert (get_prop r kf) seen, deduplicated @ [r], duplicateCount))"
  by (simp add: dedup_step_def Let_def)

lemma seen_after_snoc:
  "seen_after kf (rs @ [r]) =
     (if truthy (get_prop r kf) then insert (get_prop r kf) (seen_after kf rs)
      else seen_after kf rs)"
  by (simp add: seen_after_def) blast

lemma kept_after_snoc:
  "kept_after kf (rs @ [r]) =
     kept_after kf rs @ (if repeats_key kf (rs @ [r]) (length rs) then [] else [r])"
proof -
  have "filter (\<lambda>i. \<not> repeats_key kf (rs @ [r]) i) [0..<length rs]
          = filter (\<lambda>i. \<not> repeats_key kf rs i) [0..<length rs]"
    by (rule filter_cong) (simp_all add: repeats_key_append)
  moreover have "map ((!) (rs @ [r])) (filter (\<lambda>i. \<not> repeats_key kf rs i) [0..<length rs])
          = map ((!) rs) (filter (\<lambda>i. \<not> repeats_key kf rs i) [0..<length rs])"
    by (rule map_cong) (simp_all add: nth_append)
  ultimately show ?thesis
    by (simp add: kept_after_def)
qed

lemma dropped_after_snoc:
  "dropped_after kf (rs @ [r]) =
     dropped_after kf rs + (if repeats_key kf (rs @ [r]) (length rs) then 1 else 0)"
proof -
  have "filter (repeats_key kf (rs @ [r])) [0..<length rs]
          = filter (repeats_key kf rs) [0..<length rs]"
    by (rule filter_cong) (simp_all add: repeats_key_append)
  then show ?thesis
    by (simp add: dropped_after_def)
qed

lemma dedup_fold:
  "fold (dedup_step kf) rs ({}, [], 0) = (seen_after kf rs, kept_after kf rs, dropped_after kf rs)"
proof (induction rs rule: rev_induct)
  case Nil
  show ?case
    by (simp add: seen_after_def kept_after_def dropped_after_def)
next
  case (snoc r rs)
  have in_seen: "get_prop r kf \<in> seen_after kf rs \<longleftrightarrow>
      truthy (get_prop r kf) \<and> get_prop r kf \<in> (\<lambda>x. get_prop x kf) ` set rs"
    by (simp add: seen_after_def conj_commute)
  have "fold (dedup_step kf) (rs @ [r]) ({}, [], 0)
          = dedup_step kf r (seen_after kf rs, kept_after kf rs, dropped_after kf rs)"
    by (simp add: snoc.IH)
  also have "\<dots> = (seen_after kf (rs @ [r]), kept_after kf (rs @ [r]), dropped_after kf (rs @ [r]))"
    by (simp add: dedup_step_apply seen_after_snoc kept_after_snoc dropped_after_snoc
          repeats_key_last in_seen insert_absorb)
  finally show ?case .
qed

lemma deduplicateRecords_positions:
  "records (deduplicateRecords rs kf) =
     map ((!) rs) (filter (\<lambda>i. \<not> repeats_key kf rs i) [0..<length rs])"
  "duplicates_removed (deduplicateRecords rs kf) =
     length (filter (repeats_key kf rs) [0..<length rs])"
  by (simp_all add: deduplicateRecords_def dedup_fold kept_after_def dropped_after_def)

lemma deduplicateRecords_keyless:
  assumes "\<forall>r \<in> set rs. \<not> truthy (get_prop r kf)"
  shows "records (deduplicateRecords rs kf) = rs \<and>
         duplicates_removed (deduplicateRecords rs kf) = 0"
proof -
  have none: "\<And>i. i < length rs \<Longrightarrow> \<not> repeats_key kf rs i"
    using assms by (simp add: repeats_key_def)
  then have "filter (\<lambda>i. \<not> repeats_key kf rs i) [0..<length rs] = [0..<length rs]"
    by (simp add: filter_id_conv)
  moreover have "filter (repeats_key kf rs) [0..<length rs] = []"
    using none by (simp add: filter_empty_conv)
  ultimately show ?thesis
    by (simp add: deduplicateRecords_positions map_nth)
qed

lemma deduplicateRecords_pair:
  assumes "get_prop r1 kf \<noteq> get_prop r2 kf"
  shows "records (deduplicateRecords [r1, r2] kf) = [r1, r2] \<and>
         duplicates_removed (deduplicateRecords [r1, r2] kf) = 0"
  using assms by (simp add: deduplicateRecords_def dedup_step_apply)

text \<open>
  Claim C7. The records that \<open>deduplicateRecords\<close> returns are those of the input, in
  order, except the ones that repeat a key: a record is removed exactly when its key is
  truthy and equal, as a value of the same type, to the key of an earlier record, and
  \<open>duplicates_removed\<close> counts the removed records. A record keyed by the number 123 and
  one keyed by the string \<open>123\<close> are both kept, in either order, with no duplicate
  counted. When every record lacks the key (\<open>undefined\<close> or \<open>null\<close>) all of them are
  kept and no duplicate is counted.
\<close>

theorem deduplicateRecords_strict_keys:
  "records (deduplicateRecords rs kf) =
     map ((!) rs) (filter (\<lambda>i. \<not> repeats_key kf rs i) [0..<length rs])
   \<and> duplicates_removed (deduplicateRecords rs kf) =
       length (filter (repeats_key kf rs) [0..<length rs])
   \<and> (get_prop r1 kf = JNum 123 \<and> get_prop r2 kf = JStr ''123'' \<longrightarrow>
        records (deduplicateRecords [r1, r2] kf) = [r1, r2] \<and>
        duplicates_removed (deduplicateRecords [r1, r2] kf) = 0 \<and>
        records (deduplicateRecords [r2, r1] kf) = [r2, r1] \<and>
        duplicates_removed (deduplicateRecords [r2, r1] kf) = 0)
   \<and> ((\<forall>r \<in> set rs. get_prop r kf = JUndefined \<or> get_prop r kf = JNull) \<longrightarrow>
        records (deduplicateRecords rs kf) = rs \<and>
        duplicates_removed (deduplicateRecords rs kf) = 0)"
proof -
  have "(\<forall>r \<in> set rs. get_prop r kf = JUndefined \<or> get_prop r kf = JNull) \<longrightarrow>
          (\<forall>r \<in> set rs. \<not> truthy (get_prop r kf))"
    by auto
  then show ?thesis
    using deduplicateRecords_positions [of rs kf] deduplicateRecords_keyless [of rs kf]
      deduplicateRecords_pair [of r1 kf r2] deduplicateRecords_pair [of r2 kf r1]
    by auto
qed

theorem deduplicateRecords_strict_keys_witness:
  "records (deduplicateRecords
      [[(''unique_key'', JStr ''123''), (''value'', JStr ''A'')],
       [(''unique_key'', JNum 123), (''value'', JStr ''B'')]] ''unique_key'')
     = [[(''unique_key'', JStr ''123''), (''value'', JStr ''A'')],
        [(''unique_key'', JNum 123), (''value'', JStr ''B'')]]
   \<and> duplicates_removed (deduplicateRecords
      [[(''unique_key'', JStr ''123''), (''value'', JStr ''A'')],
       [(''unique_key'', JNum 123), (''value'', JStr ''B'')]] ''unique_key'') = 0
   \<and> records (deduplicateRecords
      [[(''value'', JNum 1)], [(''value'', JNum 2)], [(''unique_key'', JNull), (''value'', JNum 3)]]
      ''unique_key'')
     = [[(''value'', JNum 1)], [(''value'', JNum 2)], [(''unique_key'', JNull), (''value'', JNum 3)]]
   \<and> duplicates_removed (deduplicateRecords
      [[(''value'', JNum 1)], [(''value'', JNum 2)], [(''unique_key'', JNull), (''value'', JNum 3)]]
      ''unique_key'') = 0"
  using deduplicateRecords_strict_keys
    [of "[[(''value'', JNum 1)], [(''value'', JNum 2)], [(''unique_key'', JNull), (''value'', JNum 3)]]"
        "''unique_key''"
        "[(''unique_key'', JNum 123), (''value'', JStr ''B'')]"
        "[(''unique_key'', JStr ''123''), (''value'', JStr ''A'')]",
     THEN conjunct2, THEN conjunct2]
  by (simp add: get_prop_def)

text \<open>A repeated key: the first occurrence is kept, the later one is counted and removed.\<close>

lemma deduplicateRecords_example:
  "deduplicateRecords
     [[(''unique_key'', JStr ''A123''), (''value'', JNum 1)],
      [(''unique_key'', JStr ''B456''), (''value'', JNum 2)],
      [(''unique_key'', JStr ''A123''), (''value'', JNum 3)]] ''unique_key''
   = \<lparr> records = [[(''unique_key'', JStr ''A123''), (''value'', JNum 1)],
                   [(''unique_key'', JStr ''B456''), (''value'', JNum 2)]],
       original_count = 3, deduplicated_count = 2, duplicates_removed = 1 \<rparr>"
  by (simp add: deduplicateRecords_def dedup_step_apply get_prop_def)

section \<open>Insertion-ordered maps: properties\<close>

lemma map_of_Map_set: "map_of (Map_set k v m) = (map_of m)(k \<mapsto> v)"
  by (induction m) (auto simp: fun_eq_iff)

lemma keys_Map_set: "fst ` set (Map_set k v m) = insert k (fst ` set m)"
proof (induction m)
  case Nil
  show ?case by simp
next
  case (Cons p m)
  show ?case
    by (cases p) (simp add: Cons.IH insert_commute)
qed

lemma distinct_Map_set:
  "distinct (map fst m) \<Longrightarrow> distinct (map fst (Map_set k v m))"
proof (induction m)
  case Nil
  show ?case by simp
next
  case (Cons p m)
  then show ?case
    by (cases p) (auto simp: keys_Map_set)
qed

lemma map_of_None_iff_keys: "map_of m k = None \<longleftrightarrow> k \<notin> fst ` set m"
  by (simp add: map_of_eq_None_iff)

lemma values_of_distinct:
  assumes "distinct (map fst m)"
  shows "c \<in> set (map snd m) \<longleftrightarrow> (\<exists>k. map_of m k = Some c)"
  using assms by (force simp: image_iff)

section \<open>Aggregated deduplication: properties\<close>

lemma agg_key_count_update [simp]: "agg_key (r \<lparr> count := n \<rparr>) = agg_key r"
  by (simp add: agg_key_def)


lemma entries_of_distinct:
  assumes "distinct (map fst m)" and "(k, c) \<in> set m"
  shows "map_of m k = Some c"
  using assms by simp












text \<open>The merged timeline of the test suite, computed.\<close>

lemma deduplicateAggregated_example:
  "deduplicateAggregated
     [\<lparr> period = ''2025-10-01'', count = 10, topic = ''Noise'' \<rparr>,
      \<lparr> period = ''2025-10-01'', count = 5, topic = ''Heat'' \<rparr>,
      \<lparr> period = ''2025-10-01'', count = 3, topic = ''Noise'' \<rparr>]
   = [\<lparr> period = ''2025-10-01'', count = 13, topic = ''Noise'' \<rparr>,
      \<lparr> period = ''2025-10-01'', count = 5, topic = ''Heat'' \<rparr>]"
  by (simp add: deduplicateAggregated_def agg_step_def agg_key_def)

section \<open>Street closures: properties\<close>

lemma purposes_of_Nil [simp]: "purposes_of [] k = {}"
  by (simp add: purposes_of_def)

lemma purposes_of_snoc:
  "purposes_of (rows @ [row]) k =
     purposes_of rows k \<union> (if closure_key row = k then set_option (truthy_purpose row) else {})"
  unfolding purposes_of_def by (cases "truthy_purpose row") auto

lemma merged_key_purposes_update [simp]:
  "merged_key (c \<lparr> purposes := ps, purpose_merged := pm \<rparr>) = merged_key c"
  by (simp add: merged_key_def)

lemma new_closure_fields:
  "merged_key (new_closure row) = closure_key row"
  "set (purposes (new_closure row)) = set_option (truthy_purpose row)"
  "distinct (purposes (new_closure row))"
  by (cases "truthy_purpose row"; simp add: new_closure_def merged_key_def closure_key_def)+

lemma closure_step_new:
  assumes "map_of m (closure_key row) = None"
  shows "closure_step row m = Map_set (closure_key row) (new_closure row) m"
  using assms by (simp add: closure_step_def)

lemma closure_step_known:
  assumes "map_of m (closure_key row) = Some existing"
  shows "closure_step row m = m \<and> set_option (truthy_purpose row) \<subseteq> set (purposes existing)
         \<or> (\<exists>p. truthy_purpose row = Some p \<and> p \<notin> set (purposes existing) \<and>
                closure_step row m =
                  Map_set (closure_key row)
                    (existing \<lparr> purposes := purposes existing @ [p],
                                purpose_merged := join ''; '' (purposes existing @ [p]) \<rparr>) m)"
  using assms by (cases "truthy_purpose row") (simp_all add: closure_step_def)

lemma closure_fold_invariant:
  "distinct (map fst (fold closure_step rows []))
   \<and> fst ` set (fold closure_step rows []) = closure_key ` set rows
   \<and> (\<forall>k c. map_of (fold closure_step rows []) k = Some c \<longrightarrow>
         merged_key c = k \<and> set (purposes c) = purposes_of rows k \<and> distinct (purposes c))"
proof (induction rows rule: rev_induct)
  case Nil
  show ?case by simp
next
  case (snoc row rows)
  define m where "m = fold closure_step rows []"
  have d: "distinct (map fst m)"
    and ks: "fst ` set m = closure_key ` set rows"
    and vs: "\<And>k c. map_of m k = Some c \<Longrightarrow>
               merged_key c = k \<and> set (purposes c) = purposes_of rows k \<and> distinct (purposes c)"
    using snoc.IH by (simp_all add: m_def)
  have step: "fold closure_step (rows @ [row]) [] = closure_step row m"
    by (simp add: m_def)
  show ?case
  proof (cases "map_of m (closure_key row)")
    case None
    then have fresh: "closure_key row \<notin> closure_key ` set rows"
      using ks by (simp add: map_of_None_iff_keys)
    have none: "purposes_of rows (closure_key row) = {}"
    proof -
      have "\<And>r. r \<in> set rows \<Longrightarrow> closure_key r \<noteq> closure_key row"
        using fresh by (metis imageI)
      then show ?thesis
        unfolding purposes_of_def by blast
    qed
    show ?thesis
      unfolding step closure_step_new [OF None]
      using d ks vs none new_closure_fields [of row]
      by (auto simp: distinct_Map_set keys_Map_set map_of_Map_set purposes_of_snoc)
  next
    case (Some existing)
    then have old: "merged_key existing = closure_key row"
      "set (purposes existing) = purposes_of rows (closure_key row)"
      "distinct (purposes existing)"
      using vs by simp_all
    have "closure_key row \<in> fst ` set m"
      using Some by (metis map_of_None_iff_keys option.distinct(1))
    then have known: "insert (closure_key row) (closure_key ` set rows) = closure_key ` set rows"
      using ks by auto
    from closure_step_known [OF Some] show ?thesis
    proof
      assume same: "closure_step row m = m \<and>
                    set_option (truthy_purpose row) \<subseteq> set (purposes existing)"
      then have m': "closure_step row m = m"
        and sub: "set_option (truthy_purpose row) \<subseteq> purposes_of rows (closure_key row)"
        using old by simp_all
      show ?thesis
        unfolding step m'
        using d ks vs known sub
        by (auto simp: purposes_of_snoc)
    next
      assume "\<exists>p. truthy_purpose row = Some p \<and> p \<notin> set (purposes existing) \<and>
                closure_step row m =
                  Map_set (closure_key row)
                    (existing \<lparr> purposes := purposes existing @ [p],
                                purpose_merged := join ''; '' (purposes existing @ [p]) \<rparr>) m"
      then obtain p where p: "truthy_purpose row = Some p" "p \<notin> set (purposes existing)"
        and m': "closure_step row m =
                  Map_set (closure_key row)
                    (existing \<lparr> purposes := purposes existing @ [p],
                                purpose_merged := join ''; '' (purposes existing @ [p]) \<rparr>) m"
        by blast
      show ?thesis
        unfolding step m'
        using d ks vs known old p
        by (auto simp: distinct_Map_set keys_Map_set map_of_Map_set purposes_of_snoc)
    qed
  qed
qed

lemma dedupedClosures_entry:
  assumes "c \<in> set (dedupedClosures rows)"
  shows "merged_key c \<in> closure_key ` set rows \<and>
         set (purposes c) = purposes_of rows (merged_key c) \<and> distinct (purposes c)"
proof -
  from assms obtain k where kc: "(k, c) \<in> set (fold closure_step rows [])"
    by (auto simp: dedupedClosures_def)
  then have "map_of (fold closure_step rows []) k = Some c"
    using closure_fold_invariant [of rows] by (simp add: entries_of_distinct)
  then have "merged_key c = k \<and> set (purposes c) = purposes_of rows k \<and> distinct (purposes c)"
    using closure_fold_invariant [of rows] by blast
  moreover from kc have "k \<in> closure_key ` set rows"
    using closure_fold_invariant [of rows] by (metis fst_conv imageI)
  ultimately show ?thesis
    by blast
qed

lemma dedupedClosures_keys:
  "map merged_key (dedupedClosures rows) = map fst (fold closure_step rows [])"
proof -
  have "\<And>p. p \<in> set (fold closure_step rows []) \<Longrightarrow> merged_key (snd p) = fst p"
  proof -
    fix p assume "p \<in> set (fold closure_step rows [])"
    then have "(fst p, snd p) \<in> set (fold closure_step rows [])"
      by simp
    then have "map_of (fold closure_step rows []) (fst p) = Some (snd p)"
      using closure_fold_invariant [of rows] by (simp only: entries_of_distinct)
    then show "merged_key (snd p) = fst p"
      using closure_fold_invariant [of rows] by blast
  qed
  then show ?thesis
    by (simp add: dedupedClosures_def)
qed

lemma dedupedClosures_distinct: "distinct (map merged_key (dedupedClosures rows))"
  using closure_fold_invariant [of rows] by (simp only: dedupedClosures_keys)

lemma dedupedClosures_key_set:
  "merged_key ` set (dedupedClosures rows) = closure_key ` set rows"
proof -
  have "merged_key ` set (dedupedClosures rows) = set (map merged_key (dedupedClosures rows))"
    by simp
  also have "\<dots> = fst ` set (fold closure_step rows [])"
    by (simp only: dedupedClosures_keys set_map)
  also have "\<dots> = closure_key ` set rows"
    using closure_fold_invariant [of rows] by blast
  finally show ?thesis .
qed

lemma dedupedClosures_one_per_key:
  assumes "row \<in> set rows"
  shows "\<exists>!c. c \<in> set (dedupedClosures rows) \<and> merged_key c = closure_key row"
proof -
  from assms have "closure_key row \<in> merged_key ` set (dedupedClosures rows)"
    by (simp add: dedupedClosures_key_set)
  then obtain c where c: "c \<in> set (dedupedClosures rows)" "merged_key c = closure_key row"
    by (metis imageE)
  have "inj_on merged_key (set (dedupedClosures rows))"
    using dedupedClosures_distinct [of rows] by (simp add: distinct_map)
  then have "\<And>c'. c' \<in> set (dedupedClosures rows) \<Longrightarrow> merged_key c' = closure_key row
               \<Longrightarrow> c' = c"
    using c by (metis inj_onD)
  with c show ?thesis
    by blast
qed

lemma dedupedClosures_has_purpose:
  assumes "row \<in> set rows" and "map_of row ''purpose'' = Some p" and "p \<noteq> []"
    and "c \<in> set (dedupedClosures rows)" and "merged_key c = closure_key row"
  shows "p \<in> set (purposes c)"
proof -
  have "truthy_purpose row = Some p"
    using assms(2,3) by (simp add: truthy_purpose_def)
  with assms(1,5) have "p \<in> purposes_of rows (merged_key c)"
    unfolding purposes_of_def by (simp add: bexI [of _ row])
  with dedupedClosures_entry [OF assms(4)] show ?thesis
    by simp
qed

lemma dedupedClosures_pair:
  assumes "closure_key r2 = closure_key r1"
    and "map_of r1 ''purpose'' = Some ''Paving''"
    and "map_of r2 ''purpose'' = Some ''Utility Work''"
  shows "dedupedClosures [r1, r2] =
           [new_closure r1 \<lparr> purposes := [''Paving'', ''Utility Work''],
                             purpose_merged := ''Paving; Utility Work'' \<rparr>]"
  using assms
  by (simp add: dedupedClosures_def closure_step_def truthy_purpose_def new_closure_def)

text \<open>
  Claim C5. The merged closures have pairwise different composite keys, and their keys
  are those of the raw rows: the rows with one key collapse into exactly one record. The
  purposes of a merged record are, without repetition, the truthy purposes of the rows
  with its key, so every purpose of a row is on the record of its key. Two rows with
  one key and the purposes \<open>Paving\<close> and \<open>Utility Work\<close> give one record with both.
\<close>

theorem dedupedClosures_merges_purposes:
  "distinct (map merged_key (dedupedClosures rows))
   \<and> merged_key ` set (dedupedClosures rows) = closure_key ` set rows
   \<and> (\<forall>row \<in> set rows. \<exists>!c. c \<in> set (dedupedClosures rows) \<and> merged_key c = closure_key row)
   \<and> (\<forall>c \<in> set (dedupedClosures rows).
         set (purposes c) = purposes_of rows (merged_key c) \<and> distinct (purposes c))
   \<and> (\<forall>row \<in> set rows. \<forall>p. map_of row ''purpose'' = Some p \<and> p \<noteq> [] \<longrightarrow>
         (\<forall>c \<in> set (dedupedClosures rows). merged_key c = closure_key row \<longrightarrow> p \<in> set (purposes c)))
   \<and> (closure_key r2 = closure_key r1 \<and> map_of r1 ''purpose'' = Some ''Paving'' \<and>
        map_of r2 ''purpose'' = Some ''Utility Work'' \<longrightarrow>
        (\<exists>c. dedupedClosures [r1, r2] = [c] \<and> purposes c = [''Paving'', ''Utility Work'']))"
proof (intro conjI)
  show "distinct (map merged_key (dedupedClosures rows))"
    by (rule dedupedClosures_distinct)
  show "merged_key ` set (dedupedClosures rows) = closure_key ` set rows"
    by (rule dedupedClosures_key_set)
  show "\<forall>row \<in> set rows. \<exists>!c. c \<in> set (dedupedClosures rows) \<and> merged_key c = closure_key row"
    using dedupedClosures_one_per_key by blast
  show "\<forall>c \<in> set (dedupedClosures rows).
         set (purposes c) = purposes_of rows (merged_key c) \<and> distinct (purposes c)"
    using dedupedClosures_entry by blast
  show "\<forall>row \<in> set rows. \<forall>p. map_of row ''purpose'' = Some p \<and> p \<noteq> [] \<longrightarrow>
         (\<forall>c \<in> set (dedupedClosures rows). merged_key c = closure_key row \<longrightarrow> p \<in> set (purposes c))"
    using dedupedClosures_has_purpose by blast
  show "closure_key r2 = closure_key r1 \<and> map_of r1 ''purpose'' = Some ''Paving'' \<and>
        map_of r2 ''purpose'' = Some ''Utility Work'' \<longrightarrow>
        (\<exists>c. dedupedClosures [r1, r2] = [c] \<and> purposes c = [''Paving'', ''Utility Work''])"
    using dedupedClosures_pair [of r2 r1] by simp
qed

theorem dedupedClosures_merges_purposes_witness:
  "\<exists>c. dedupedClosures
       [[(''segmentid'', ''1''), (''work_start_date'', ''2025-01-01''),
         (''work_end_date'', ''2025-01-10''), (''purpose'', ''Paving'')],
        [(''segmentid'', ''1''), (''work_start_date'', ''2025-01-01''),
         (''work_end_date'', ''2025-01-10''), (''purpose'', ''Utility Work'')]] = [c]
      \<and> purposes c = [''Paving'', ''Utility Work'']"
  using dedupedClosures_merges_purposes
    [of "[]"
        "[(''segmentid'', ''1''), (''work_start_date'', ''2025-01-01''),
          (''work_end_date'', ''2025-01-10''), (''purpose'', ''Utility Work'')]"
        "[(''segmentid'', ''1''), (''work_start_date'', ''2025-01-01''),
          (''work_end_date'', ''2025-01-10''), (''purpose'', ''Paving'')]"]
  by (simp add: closure_key_def)

text \<open>The merged record of the two rows, computed.\<close>

lemma dedupedClosures_example:
  "dedupedClosures
     [[(''segmentid'', ''1''), (''work_start_date'', ''2025-01-01''),
       (''work_end_date'', ''2025-01-10''), (''purpose'', ''Paving'')],
      [(''segmentid'', ''1''), (''work_start_date'', ''2025-01-01''),
       (''work_end_date'', ''2025-01-10''), (''purpose'', ''Utility Work'')],
      [(''segmentid'', ''1''), (''work_start_date'', ''2025-01-01''),
       (''work_end_date'', ''2025-01-10''), (''purpose'', ''Paving'')]]
   = [\<lparr> segment_id = Some ''1'', work_start_date = Some ''2025-01-01'',
        work_end_date = Some ''2025-01-10'', on_street = None, from_street = None,
        to_street = None, borough_code = None, borough = None,
        purposes = [''Paving'', ''Utility Work''], purpose_merged = ''Paving; Utility Work'',
        cd = None, geometry = None, unique_id = None \<rparr>]"
  by (simp add: dedupedClosures_def closure_step_def closure_key_def truthy_purpose_def
        new_closure_def mapBoroughCode_def template_def)

section \<open>Retry: properties\<close>

lemma fatal_status_4xx:
  assumes "400 \<le> s" and "s < 500" and "s \<noteq> 429"
  shows "fatal_status (Some s)"
  using assms by (simp add: fatal_status_def)

lemma fatal_status_503 [simp]: "\<not> fatal_status (Some 503)"
  by (simp add: fatal_status_def)

lemma withRetry_loop_returns:
  assumes "int attempt < or_default (maxAttempts options) RETRY_CONFIG_max_attempts"
    and "requestFn u = (Inr v, u1)"
  shows "withRetry_loop pf requestFn options attempt lastError (tr, u) =
           (Inr v, 1, (trackRequest pf (tr, u), u1))"
  using assms by (subst withRetry_loop.simps) (simp add: Let_def)

lemma withRetry_loop_fatal:
  assumes "int attempt < or_default (maxAttempts options) RETRY_CONFIG_max_attempts"
    and "requestFn u = (Inl e, u1)" and "fatal_status (response_status e)"
  shows "withRetry_loop pf requestFn options attempt lastError (tr, u) =
           (Inl (Thrown e), 1, (trackRequest pf (tr, u), u1))"
  using assms by (subst withRetry_loop.simps) (simp add: Let_def)

lemma withRetry_loop_last:
  assumes "int attempt = or_default (maxAttempts options) RETRY_CONFIG_max_attempts - 1"
    and "requestFn u = (Inl e, u1)"
  shows "withRetry_loop pf requestFn options attempt lastError (tr, u) =
           (Inl (Thrown e), 1, (trackRequest pf (tr, u), u1))"
  using assms by (subst withRetry_loop.simps) (simp add: Let_def)

lemma withRetry_loop_retries:
  assumes "int attempt < or_default (maxAttempts options) RETRY_CONFIG_max_attempts - 1"
    and "requestFn u = (Inl e, u1)" and "\<not> fatal_status (response_status e)"
  shows "withRetry_loop pf requestFn options attempt lastError (tr, u) =
           (case withRetry_loop pf requestFn options (Suc attempt) (Thrown e)
                   (trackRequest pf (tr, u), backoff pf options attempt e u1) of
              (res, n, st') \<Rightarrow> (res, Suc n, st'))"
  using assms by (subst withRetry_loop.simps) (simp add: Let_def)

lemma withRetry_loop_exhausted:
  assumes "\<not> int attempt < or_default (maxAttempts options) RETRY_CONFIG_max_attempts"
  shows "withRetry_loop pf requestFn options attempt lastError st = (Inl lastError, 0, st)"
  using assms by (subst withRetry_loop.simps) (simp add: Let_def)

lemma withRetry_loop_calls_bounded:
  "fst (snd (withRetry_loop pf requestFn options attempt lastError st))
     \<le> nat (or_default (maxAttempts options) RETRY_CONFIG_max_attempts - int attempt)"
proof (induction pf requestFn options attempt lastError st rule: withRetry_loop.induct)
  case (1 pf requestFn options attempt lastError st)
  show ?case
  proof (cases "int attempt < or_default (maxAttempts options) RETRY_CONFIG_max_attempts")
    case False
    then show ?thesis
      by (simp add: withRetry_loop_exhausted)
  next
    case True
    obtain r u1 where req: "requestFn (snd st) = (r, u1)"
      by (cases "requestFn (snd st)")
    obtain tr u where st: "st = (tr, u)"
      by (cases st)
    show ?thesis
    proof (cases r)
      case (Inr v)
      with True req st show ?thesis
        by (simp add: withRetry_loop_returns)
    next
      case (Inl e)
      show ?thesis
      proof (cases "fatal_status (response_status e)")
        case fatal: True
        with True req st Inl show ?thesis
          by (simp add: withRetry_loop_fatal)
      next
        case retryable: False
        show ?thesis
        proof (cases "int attempt = or_default (maxAttempts options) RETRY_CONFIG_max_attempts - 1")
          case last: True
          with True req st Inl show ?thesis
            by (simp add: withRetry_loop_last)
        next
          case more: False
          with True have lt: "int attempt < or_default (maxAttempts options) RETRY_CONFIG_max_attempts - 1"
            by simp
          have IH: "fst (snd (withRetry_loop pf requestFn options (Suc attempt) (Thrown e)
                     (trackRequest pf st, backoff pf options attempt e u1)))
                  \<le> nat (or_default (maxAttempts options) RETRY_CONFIG_max_attempts - int (Suc attempt))"
            by (rule "1.IH" [OF True refl _ _ retryable more, of r]) (simp_all add: req Inl)
          obtain res n st' where rest:
            "withRetry_loop pf requestFn options (Suc attempt) (Thrown e)
               (trackRequest pf st, backoff pf options attempt e u1) = (res, n, st')"
            by (metis prod_cases3)
          with IH have "n \<le> nat (or_default (maxAttempts options) RETRY_CONFIG_max_attempts
                              - int (Suc attempt))"
            by simp
          with lt have "Suc n \<le> nat (or_default (maxAttempts options) RETRY_CONFIG_max_attempts
                              - int attempt)"
            by simp
          moreover have "withRetry_loop pf requestFn options attempt lastError st
                           = (res, Suc n, st')"
            using lt req st Inl retryable rest by (simp add: withRetry_loop_retries)
          ultimately show ?thesis
            by simp
        qed
      qed
    qed
  qed
qed

lemma withRetry_stops_on_fatal:
  assumes "maxAttempts options = None"
    and "requestFn u = (Inl e, u1)" and "response_status e = Some s"
    and "400 \<le> s" and "s < 500" and "s \<noteq> 429"
  shows "withRetry pf requestFn options (tr, u) =
           (Inl (Thrown e), 1, (trackRequest pf (tr, u), u1))"
proof -
  have "fatal_status (response_status e)"
    using assms(3-6) by (simp add: fatal_status_4xx)
  moreover have "int 0 < or_default (maxAttempts options) RETRY_CONFIG_max_attempts"
    using assms(1) by (simp add: or_default_def RETRY_CONFIG_max_attempts_def)
  ultimately show ?thesis
    unfolding withRetry_def using assms(2) by (rule withRetry_loop_fatal [rotated 2])
qed

lemma withRetry_third_attempt:
  assumes "maxAttempts options = None"
    and "requestFn u = (Inl e1, v1)" and "\<not> fatal_status (response_status e1)"
    and "requestFn (backoff pf options 0 e1 v1) = (Inl e2, v2)"
    and "\<not> fatal_status (response_status e2)"
  shows "withRetry pf requestFn options (tr, u) =
           (case withRetry_loop pf requestFn options 2 (Thrown e2)
                   (trackRequest pf (trackRequest pf (tr, u), backoff pf options 0 e1 v1),
                    backoff pf options 1 e2 v2) of
              (res, n, st') \<Rightarrow> (res, Suc (Suc n), st'))"
proof -
  have m: "or_default (maxAttempts options) RETRY_CONFIG_max_attempts = 3"
    using assms(1) by (simp add: or_default_def RETRY_CONFIG_max_attempts_def)
  have "withRetry pf requestFn options (tr, u) =
          (case withRetry_loop pf requestFn options (Suc 0) (Thrown e1)
                  (trackRequest pf (tr, u), backoff pf options 0 e1 v1) of
             (res, n, st') \<Rightarrow> (res, Suc n, st'))"
    unfolding withRetry_def using assms(2,3) by (simp add: withRetry_loop_retries m)
  moreover have "withRetry_loop pf requestFn options (Suc 0) (Thrown e1)
                  (trackRequest pf (tr, u), backoff pf options 0 e1 v1) =
          (case withRetry_loop pf requestFn options (Suc (Suc 0)) (Thrown e2)
                  (trackRequest pf (trackRequest pf (tr, u), backoff pf options 0 e1 v1),
                   backoff pf options (Suc 0) e2 v2) of
             (res, n, st') \<Rightarrow> (res, Suc n, st'))"
    using assms(4,5) by (simp add: withRetry_loop_retries m)
  ultimately show ?thesis
    by (simp add: numeral_2_eq_2 split: prod.splits)
qed

lemma withRetry_succeeds_on_third:
  assumes "maxAttempts options = None"
    and "requestFn u = (Inl e1, v1)" and "\<not> fatal_status (response_status e1)"
    and "requestFn (backoff pf options 0 e1 v1) = (Inl e2, v2)"
    and "\<not> fatal_status (response_status e2)"
    and "requestFn (backoff pf options 1 e2 v2) = (Inr x, v3)"
  shows "\<exists>tr'. withRetry pf requestFn options (tr, u) = (Inr x, 3, (tr', v3))"
proof -
  have "int 2 < or_default (maxAttempts options) RETRY_CONFIG_max_attempts"
    using assms(1) by (simp add: or_default_def RETRY_CONFIG_max_attempts_def)
  then have "withRetry_loop pf requestFn options 2 (Thrown e2)
               (trackRequest pf (trackRequest pf (tr, u), backoff pf options 0 e1 v1),
                backoff pf options 1 e2 v2) =
             (Inr x, 1, (trackRequest pf
                (trackRequest pf (trackRequest pf (tr, u), backoff pf options 0 e1 v1),
                 backoff pf options 1 e2 v2), v3))"
    using assms(6) by (rule withRetry_loop_returns)
  then show ?thesis
    using withRetry_third_attempt [OF assms(1-5)] by simp
qed

lemma withRetry_rethrows_last:
  assumes "maxAttempts options = None"
    and "requestFn u = (Inl e1, v1)" and "\<not> fatal_status (response_status e1)"
    and "requestFn (backoff pf options 0 e1 v1) = (Inl e2, v2)"
    and "\<not> fatal_status (response_status e2)"
    and "requestFn (backoff pf options 1 e2 v2) = (Inl e3, v3)"
  shows "\<exists>tr'. withRetry pf requestFn options (tr, u) = (Inl (Thrown e3), 3, (tr', v3))"
proof -
  have "int 2 = or_default (maxAttempts options) RETRY_CONFIG_max_attempts - 1"
    using assms(1) by (simp add: or_default_def RETRY_CONFIG_max_attempts_def)
  then have "withRetry_loop pf requestFn options 2 (Thrown e2)
               (trackRequest pf (trackRequest pf (tr, u), backoff pf options 0 e1 v1),
                backoff pf options 1 e2 v2) =
             (Inl (Thrown e3), 1, (trackRequest pf
                (trackRequest pf (trackRequest pf (tr, u), backoff pf options 0 e1 v1),
                 backoff pf options 1 e2 v2), v3))"
    using assms(6) by (rule withRetry_loop_last)
  then show ?thesis
    using withRetry_third_attempt [OF assms(1-5)] by simp
qed

lemma withRetry_calls_bounded:
  assumes "maxAttempts options = None"
  shows "fst (snd (withRetry pf requestFn options st)) \<le> 3"
  using withRetry_loop_calls_bounded [of pf requestFn options 0 Thrown_undefined st] assms
  by (simp add: withRetry_def or_default_def RETRY_CONFIG_max_attempts_def)

text \<open>
  Claim C1, for options that leave \<open>maxAttempts\<close> at its default 3. When the first
  invocation throws an error with a status from 400 to 499 other than 429, \<open>withRetry\<close>
  throws that error after this one invocation. When the first two invocations throw
  errors with status 503 and the third returns, \<open>withRetry\<close> returns that value after
  three invocations. When the first two invocations throw retryable errors and the third
  throws as well, \<open>withRetry\<close> throws the third error after three invocations. It never
  makes more than three invocations. The second component of the result is the number of
  invocations; each later invocation starts from the world that the backoff leaves.
\<close>

theorem withRetry_policy:
  "maxAttempts options = None \<longrightarrow>
     (requestFn u = (Inl e, u1) \<and> response_status e = Some s \<and> 400 \<le> s \<and> s < 500 \<and> s \<noteq> 429 \<longrightarrow>
        withRetry pf requestFn options (tr, u) =
          (Inl (Thrown e), 1, (trackRequest pf (tr, u), u1)))
     \<and> (requestFn u = (Inl e1, v1) \<and> response_status e1 = Some 503 \<and>
        requestFn (backoff pf options 0 e1 v1) = (Inl e2, v2) \<and> response_status e2 = Some 503 \<and>
        requestFn (backoff pf options 1 e2 v2) = (Inr x, v3) \<longrightarrow>
        (\<exists>tr'. withRetry pf requestFn options (tr, u) = (Inr x, 3, (tr', v3))))
     \<and> (requestFn u = (Inl e1, v1) \<and> \<not> fatal_status (response_status e1) \<and>
        requestFn (backoff pf options 0 e1 v1) = (Inl e2, v2) \<and>
        \<not> fatal_status (response_status e2) \<and>
        requestFn (backoff pf options 1 e2 v2) = (Inl e3, v3) \<longrightarrow>
        (\<exists>tr'. withRetry pf requestFn options (tr, u) = (Inl (Thrown e3), 3, (tr', v3))))
     \<and> fst (snd (withRetry pf requestFn options (tr, u))) \<le> 3"
proof (intro impI conjI)
  assume d: "maxAttempts options = None"
  show "fst (snd (withRetry pf requestFn options (tr, u))) \<le> 3"
    using d by (rule withRetry_calls_bounded)
next
  assume d: "maxAttempts options = None"
    and h: "requestFn u = (Inl e, u1) \<and> response_status e = Some s \<and> 400 \<le> s \<and> s < 500 \<and> s \<noteq> 429"
  then show "withRetry pf requestFn options (tr, u) =
          (Inl (Thrown e), 1, (trackRequest pf (tr, u), u1))"
    using withRetry_stops_on_fatal [of options requestFn u e u1 s pf tr] by blast
next
  assume d: "maxAttempts options = None"
    and h: "requestFn u = (Inl e1, v1) \<and> response_status e1 = Some 503 \<and>
        requestFn (backoff pf options 0 e1 v1) = (Inl e2, v2) \<and> response_status e2 = Some 503 \<and>
        requestFn (backoff pf options 1 e2 v2) = (Inr x, v3)"
  then have "\<not> fatal_status (response_status e1)" "\<not> fatal_status (response_status e2)"
    by simp_all
  with d h show "\<exists>tr'. withRetry pf requestFn options (tr, u) = (Inr x, 3, (tr', v3))"
    using withRetry_succeeds_on_third [of options requestFn u e1 v1 pf e2 v2 x v3 tr] by blast
next
  assume d: "maxAttempts options = None"
    and h: "requestFn u = (Inl e1, v1) \<and> \<not> fatal_status (response_status e1) \<and>
        requestFn (backoff pf options 0 e1 v1) = (Inl e2, v2) \<and>
        \<not> fatal_status (response_status e2) \<and>
        requestFn (backoff pf options 1 e2 v2) = (Inl e3, v3)"
  then show "\<exists>tr'. withRetry pf requestFn options (tr, u) = (Inl (Thrown e3), 3, (tr', v3))"
    using withRetry_rethrows_last [of options requestFn u e1 v1 pf e2 v2 e3 v3 tr] by blast
qed

theorem withRetry_policy_witness:
  "withRetry test_platform replay
      \<lparr> maxAttempts = None, baseDelay = None, maxDelay = None, exponentialBase = None,
        jitter = None \<rparr>
      (\<lparr> requestCount = 0, requestWindow = 0 \<rparr>,
       \<lparr> clock = 0, script = [Inl \<lparr> response_status = Some 404, message = ''Not Found'' \<rparr>,
                               Inr (JStr ''ok'')] \<rparr>)
     = (Inl (Thrown \<lparr> response_status = Some 404, message = ''Not Found'' \<rparr>), 1,
        (\<lparr> requestCount = 1, requestWindow = 0 \<rparr>,
         \<lparr> clock = 0, script = [Inr (JStr ''ok'')] \<rparr>))
   \<and> (\<exists>tr'. withRetry test_platform replay
      \<lparr> maxAttempts = None, baseDelay = None, maxDelay = None, exponentialBase = None,
        jitter = None \<rparr>
      (\<lparr> requestCount = 0, requestWindow = 0 \<rparr>,
       \<lparr> clock = 0, script = [Inl \<lparr> response_status = Some 503, message = ''Unavailable'' \<rparr>,
                               Inl \<lparr> response_status = Some 503, message = ''Unavailable'' \<rparr>,
                               Inr (JStr ''ok'')] \<rparr>)
     = (Inr (JStr ''ok''), 3, (tr', \<lparr> clock = 3000, script = [] \<rparr>)))
   \<and> (\<exists>tr'. withRetry test_platform replay
      \<lparr> maxAttempts = None, baseDelay = None, maxDelay = None, exponentialBase = None,
        jitter = None \<rparr>
      (\<lparr> requestCount = 0, requestWindow = 0 \<rparr>,
       \<lparr> clock = 0, script = [Inl \<lparr> response_status = Some 503, message = ''Unavailable'' \<rparr>,
                               Inl \<lparr> response_status = None, message = ''socket hang up'' \<rparr>,
                               Inl \<lparr> response_status = Some 429, message = ''Too Many'' \<rparr>] \<rparr>)
     = (Inl (Thrown \<lparr> response_status = Some 429, message = ''Too Many'' \<rparr>), 3,
        (tr', \<lparr> clock = 3000, script = [] \<rparr>)))"
  using
    withRetry_policy
      [where options = "\<lparr> maxAttempts = None, baseDelay = None, maxDelay = None,
                          exponentialBase = None, jitter = None \<rparr>"
         and pf = test_platform and requestFn = replay
         and tr = "\<lparr> requestCount = 0, requestWindow = 0 \<rparr>"
         and u = "\<lparr> clock = 0, script = [Inl \<lparr> response_status = Some 404, message = ''Not Found'' \<rparr>,
                                          Inr (JStr ''ok'')] \<rparr>"
         and e = "\<lparr> response_status = Some 404, message = ''Not Found'' \<rparr>"
         and ?u1.0 = "\<lparr> clock = 0, script = [Inr (JStr ''ok'')] \<rparr>"
         and s = 404]
    withRetry_policy
      [where options = "\<lparr> maxAttempts = None, baseDelay = None, maxDelay = None,
                          exponentialBase = None, jitter = None \<rparr>"
         and pf = test_platform and requestFn = replay
         and tr = "\<lparr> requestCount = 0, requestWindow = 0 \<rparr>"
         and u = "\<lparr> clock = 0, script = [Inl \<lparr> response_status = Some 503, message = ''Unavailable'' \<rparr>,
                               Inl \<lparr> response_status = Some 503, message = ''Unavailable'' \<rparr>,
                               Inr (JStr ''ok'')] \<rparr>"
         and ?e1.0 = "\<lparr> response_status = Some 503, message = ''Unavailable'' \<rparr>"
         and ?v1.0 = "\<lparr> clock = 0, script = [Inl \<lparr> response_status = Some 503, message = ''Unavailable'' \<rparr>,
                               Inr (JStr ''ok'')] \<rparr>"
         and ?e2.0 = "\<lparr> response_status = Some 503, message = ''Unavailable'' \<rparr>"
         and ?v2.0 = "\<lparr> clock = 1000, script = [Inr (JStr ''ok'')] \<rparr>"
         and x = "JStr ''ok''"
         and ?v3.0 = "\<lparr> clock = 3000, script = [] \<rparr>"]
    withRetry_policy
      [where options = "\<lparr> maxAttempts = None, baseDelay = None, maxDelay = None,
                          exponentialBase = None, jitter = None \<rparr>"
         and pf = test_platform and requestFn = replay
         and tr = "\<lparr> requestCount = 0, requestWindow = 0 \<rparr>"
         and u = "\<lparr> clock = 0, script = [Inl \<lparr> response_status = Some 503, message = ''Unavailable'' \<rparr>,
                               Inl \<lparr> response_status = None, message = ''socket hang up'' \<rparr>,
                               Inl \<lparr> response_status = Some 429, message = ''Too Many'' \<rparr>] \<rparr>"
         and ?e1.0 = "\<lparr> response_status = Some 503, message = ''Unavailable'' \<rparr>"
         and ?v1.0 = "\<lparr> clock = 0, script = [Inl \<lparr> response_status = None, message = ''socket hang up'' \<rparr>,
                               Inl \<lparr> response_status = Some 429, message = ''Too Many'' \<rparr>] \<rparr>"
         and ?e2.0 = "\<lparr> response_status = None, message = ''socket hang up'' \<rparr>"
         and ?v2.0 = "\<lparr> clock = 1000, script = [Inl \<lparr> response_status = Some 429, message = ''Too Many'' \<rparr>] \<rparr>"
         and ?e3.0 = "\<lparr> response_status = Some 429, message = ''Too Many'' \<rparr>"
         and ?v3.0 = "\<lparr> clock = 3000, script = [] \<rparr>"]
  by (simp add: replay_def backoff_def test_platform_def or_default_def Let_def
        RETRY_CONFIG_base_delay_def RETRY_CONFIG_max_delay_def RETRY_CONFIG_exponential_base_def
        RETRY_CONFIG_jitter_def fatal_status_def trackRequest_def REQUEST_WINDOW_def)

section \<open>Query cache: properties\<close>



lemma map_of_setCache:
  "map_of (setCache pf key d t (qc, u)) key = Some \<lparr> data = d, timestamp = Date_now pf u, ttl = t \<rparr>"
  by (simp add: setCache_def Let_def map_of_Map_set)

lemma getCached_fresh:
  assumes "map_of qc key = Some c" and "Date_now pf u - timestamp c \<le> ttl c"
  shows "getCached pf key (qc, u) = (data c, qc)"
  using assms by (simp add: getCached_def)

lemma getCached_expired:
  assumes "map_of qc key = Some c" and "Date_now pf u - timestamp c > ttl c"
  shows "getCached pf key (qc, u) = (JNull, Map_delete key qc)"
  using assms by (simp add: getCached_def)


text \<open>The options of a call, resolved.\<close>

lemma withCache_hit:
  assumes "skipCache options \<noteq> Some True"
    and "getCached pf (getCacheKey pf endpoint params) (qc, u) = (c, qc1)" and "truthy c"
  shows "withCache pf endpoint params requestFn options (qc, u) =
           (Inr \<lparr> res_data = c, cached = True, cacheKey = getCacheKey pf endpoint params \<rparr>,
            0, (qc1, u))"
proof -
  have "or_default (skipCache options) False = False"
    using assms(1) by (cases "skipCache options") (auto simp: or_default_def)
  then show ?thesis
    using assms(2,3) by (simp add: withCache_def Let_def)
qed

lemma withCache_miss:
  assumes "skipCache options \<noteq> Some True"
    and "getCached pf (getCacheKey pf endpoint params) (qc, u) = (c, qc1)" and "\<not> truthy c"
  shows "withCache pf endpoint params requestFn options (qc, u) =
           (case requestFn u of
              (Inl e, u1) \<Rightarrow> (Inl e, 1, (qc1, u1))
            | (Inr d, u1) \<Rightarrow>
                (Inr \<lparr> res_data = d, cached = False, cacheKey = getCacheKey pf endpoint params \<rparr>,
                 1, (setCache pf (getCacheKey pf endpoint params) d
                       (or_default (opt_ttl options) CACHE_CONFIG_DEFAULT_TTL) (qc1, u1), u1)))"
proof -
  have "or_default (skipCache options) False = False"
    using assms(1) by (cases "skipCache options") (auto simp: or_default_def)
  then show ?thesis
    using assms(2,3) by (simp add: withCache_def Let_def)
qed

lemma withCache_skip:
  assumes "skipCache options = Some True"
  shows "withCache pf endpoint params requestFn options (qc, u) =
           (case requestFn u of
              (Inl e, u1) \<Rightarrow> (Inl e, 1, (qc, u1))
            | (Inr d, u1) \<Rightarrow>
                (Inr \<lparr> res_data = d, cached = False, cacheKey = getCacheKey pf endpoint params \<rparr>,
                 1, (setCache pf (getCacheKey pf endpoint params) d
                       (or_default (opt_ttl options) CACHE_CONFIG_DEFAULT_TTL) (qc, u1), u1)))"
proof -
  have "or_default (skipCache options) False = True"
    using assms by (simp add: or_default_def)
  then show ?thesis
    by (simp add: withCache_def Let_def)
qed

text \<open>A call that returns \<open>cached = false\<close> has run the producer once and stored its result.\<close>

lemma withCache_uncached_stores:
  assumes "withCache pf endpoint params requestFn options (qc, u) = (Inr r, n, (qc', u'))"
    and "\<not> cached r"
  shows "n = 1 \<and> cacheKey r = getCacheKey pf endpoint params \<and>
         map_of qc' (getCacheKey pf endpoint params) =
           Some \<lparr> data = res_data r, timestamp = Date_now pf u',
                  ttl = or_default (opt_ttl options) CACHE_CONFIG_DEFAULT_TTL \<rparr> \<and>
         requestFn u = (Inr (res_data r), u')"
proof (cases "skipCache options = Some True")
  case True
  obtain x u1 where req: "requestFn u = (x, u1)"
    by (cases "requestFn u")
  with assms True show ?thesis
    by (cases x) (auto simp: withCache_skip map_of_setCache)
next
  case False
  obtain c qc1 where g: "getCached pf (getCacheKey pf endpoint params) (qc, u) = (c, qc1)"
    by (cases "getCached pf (getCacheKey pf endpoint params) (qc, u)")
  obtain x u1 where req: "requestFn u = (x, u1)"
    by (cases "requestFn u")
  show ?thesis
  proof (cases "truthy c")
    case True
    with assms False g show ?thesis
      by (auto simp: withCache_hit)
  next
    case miss: False
    with assms False g req show ?thesis
      by (cases x) (auto simp: withCache_miss map_of_setCache)
  qed
qed

lemma withCache_second_call_hits:
  assumes "map_of qc1 (getCacheKey pf endpoint params) = Some \<lparr> data = d, timestamp = ts, ttl = t \<rparr>"
    and "truthy d" and "Date_now pf u2 - ts \<le> t" and "skipCache options2 \<noteq> Some True"
  shows "withCache pf endpoint params g options2 (qc1, u2) =
           (Inr \<lparr> res_data = d, cached = True, cacheKey = getCacheKey pf endpoint params \<rparr>,
            0, (qc1, u2))"
proof -
  have "getCached pf (getCacheKey pf endpoint params) (qc1, u2) = (d, qc1)"
    using getCached_fresh [OF assms(1), of pf u2] assms(3) by simp
  then show ?thesis
    using assms(2,4) by (simp add: withCache_hit)
qed

lemma withCache_second_call_expired:
  assumes "map_of qc1 (getCacheKey pf endpoint params) = Some \<lparr> data = d, timestamp = ts, ttl = t \<rparr>"
    and "Date_now pf u2 - ts > t" and "g u2 = (Inr d2, u3)"
  shows "\<exists>qc2. withCache pf endpoint params g options2 (qc1, u2) =
           (Inr \<lparr> res_data = d2, cached = False, cacheKey = getCacheKey pf endpoint params \<rparr>,
            1, (qc2, u3))"
proof (cases "skipCache options2 = Some True")
  case True
  with assms(3) show ?thesis
    by (simp add: withCache_skip)
next
  case False
  have "getCached pf (getCacheKey pf endpoint params) (qc1, u2)
          = (JNull, Map_delete (getCacheKey pf endpoint params) qc1)"
    using getCached_expired [OF assms(1), of pf u2] assms(2) by simp
  then show ?thesis
    using False assms(3) by (simp add: withCache_miss)
qed






text \<open>
  Claim C4, for producers whose result is truthy. A call that returns \<open>cached = false\<close> has
  invoked the producer once and stored its result with the time at which the producer
  returned. A later call for the same endpoint and parameters, made while the clock is
  at most the entry's TTL beyond that time, returns the stored result with
  \<open>cached = true\<close> and invokes no producer at all, so the two calls invoke the producer
  once. A call made when the clock is more than the TTL beyond that time invokes its
  producer and returns \<open>cached = false\<close>.
\<close>

theorem withCache_hit_within_ttl:
  "withCache pf endpoint params requestFn options (qc, u) = (Inr r, n, (qc1, u1)) \<and> \<not> cached r \<longrightarrow>
     n = 1 \<and> requestFn u = (Inr (res_data r), u1)
     \<and> (truthy (res_data r) \<and> skipCache options2 \<noteq> Some True \<and>
        Date_now pf u2 - Date_now pf u1 \<le> or_default (opt_ttl options) CACHE_CONFIG_DEFAULT_TTL \<longrightarrow>
          withCache pf endpoint params g options2 (qc1, u2) =
            (Inr \<lparr> res_data = res_data r, cached = True, cacheKey = cacheKey r \<rparr>, 0, (qc1, u2)))
     \<and> (Date_now pf u2 - Date_now pf u1 > or_default (opt_ttl options) CACHE_CONFIG_DEFAULT_TTL \<and>
        g u2 = (Inr d2, u3) \<longrightarrow>
          (\<exists>qc2. withCache pf endpoint params g options2 (qc1, u2) =
             (Inr \<lparr> res_data = d2, cached = False, cacheKey = cacheKey r \<rparr>, 1, (qc2, u3))))"
proof (intro impI)
  assume a: "withCache pf endpoint params requestFn options (qc, u) = (Inr r, n, (qc1, u1)) \<and> \<not> cached r"
  then have s: "n = 1" "cacheKey r = getCacheKey pf endpoint params"
    "map_of qc1 (getCacheKey pf endpoint params) =
       Some \<lparr> data = res_data r, timestamp = Date_now pf u1,
              ttl = or_default (opt_ttl options) CACHE_CONFIG_DEFAULT_TTL \<rparr>"
    "requestFn u = (Inr (res_data r), u1)"
    using withCache_uncached_stores [of pf endpoint params requestFn options qc u r n qc1 u1]
    by simp_all
  show "n = 1 \<and> requestFn u = (Inr (res_data r), u1)
     \<and> (truthy (res_data r) \<and> skipCache options2 \<noteq> Some True \<and>
        Date_now pf u2 - Date_now pf u1 \<le> or_default (opt_ttl options) CACHE_CONFIG_DEFAULT_TTL \<longrightarrow>
          withCache pf endpoint params g options2 (qc1, u2) =
            (Inr \<lparr> res_data = res_data r, cached = True, cacheKey = cacheKey r \<rparr>, 0, (qc1, u2)))
     \<and> (Date_now pf u2 - Date_now pf u1 > or_default (opt_ttl options) CACHE_CONFIG_DEFAULT_TTL \<and>
        g u2 = (Inr d2, u3) \<longrightarrow>
          (\<exists>qc2. withCache pf endpoint params g options2 (qc1, u2) =
             (Inr \<lparr> res_data = d2, cached = False, cacheKey = cacheKey r \<rparr>, 1, (qc2, u3))))"
    using s withCache_second_call_hits [OF s(3), of u2 options2 g]
      withCache_second_call_expired [OF s(3), of u2 g d2 u3 options2]
    by simp
qed

theorem withCache_hit_within_ttl_witness:
  "withCache test_platform ''erm2-nwe9'' ''{}'' replay \<lparr> opt_ttl = None, skipCache = None \<rparr>
      ([], \<lparr> clock = 0, script = [Inr (JObject 1), Inr (JObject 2)] \<rparr>)
     = (Inr \<lparr> res_data = JObject 1, cached = False, cacheKey = ''erm2-nwe9:{}'' \<rparr>, 1,
        ([(''erm2-nwe9:{}'', \<lparr> data = JObject 1, timestamp = 0, ttl = 300000 \<rparr>)],
         \<lparr> clock = 0, script = [Inr (JObject 2)] \<rparr>))
   \<and> withCache test_platform ''erm2-nwe9'' ''{}'' replay \<lparr> opt_ttl = None, skipCache = None \<rparr>
      ([(''erm2-nwe9:{}'', \<lparr> data = JObject 1, timestamp = 0, ttl = 300000 \<rparr>)],
       \<lparr> clock = 300000, script = [Inr (JObject 2)] \<rparr>)
     = (Inr \<lparr> res_data = JObject 1, cached = True, cacheKey = ''erm2-nwe9:{}'' \<rparr>, 0,
        ([(''erm2-nwe9:{}'', \<lparr> data = JObject 1, timestamp = 0, ttl = 300000 \<rparr>)],
         \<lparr> clock = 300000, script = [Inr (JObject 2)] \<rparr>))
   \<and> (\<exists>qc2. withCache test_platform ''erm2-nwe9'' ''{}'' replay
          \<lparr> opt_ttl = None, skipCache = None \<rparr>
          ([(''erm2-nwe9:{}'', \<lparr> data = JObject 1, timestamp = 0, ttl = 300000 \<rparr>)],
           \<lparr> clock = 300001, script = [Inr (JObject 2)] \<rparr>)
        = (Inr \<lparr> res_data = JObject 2, cached = False, cacheKey = ''erm2-nwe9:{}'' \<rparr>, 1,
           (qc2, \<lparr> clock = 300001, script = [] \<rparr>)))"
proof -
  have first: "withCache test_platform ''erm2-nwe9'' ''{}'' replay
      \<lparr> opt_ttl = None, skipCache = None \<rparr>
      ([], \<lparr> clock = 0, script = [Inr (JObject 1), Inr (JObject 2)] \<rparr>)
     = (Inr \<lparr> res_data = JObject 1, cached = False, cacheKey = ''erm2-nwe9:{}'' \<rparr>, 1,
        ([(''erm2-nwe9:{}'', \<lparr> data = JObject 1, timestamp = 0, ttl = 300000 \<rparr>)],
         \<lparr> clock = 0, script = [Inr (JObject 2)] \<rparr>))"
    by (simp add: withCache_def getCached_def setCache_def getCacheKey_def test_platform_def
          replay_def or_default_def CACHE_CONFIG_DEFAULT_TTL_def CACHE_CONFIG_MAX_SIZE_def Let_def)
  show ?thesis
    using first
      withCache_hit_within_ttl
        [where pf = test_platform and endpoint = "''erm2-nwe9''" and params = "''{}''"
           and requestFn = replay and options = "\<lparr> opt_ttl = None, skipCache = None \<rparr>"
           and qc = "[]" and u = "\<lparr> clock = 0, script = [Inr (JObject 1), Inr (JObject 2)] \<rparr>"
           and r = "\<lparr> res_data = JObject 1, cached = False, cacheKey = ''erm2-nwe9:{}'' \<rparr>"
           and n = 1
           and ?qc1.0 = "[(''erm2-nwe9:{}'', \<lparr> data = JObject 1, timestamp = 0, ttl = 300000 \<rparr>)]"
           and ?u1.0 = "\<lparr> clock = 0, script = [Inr (JObject 2)] \<rparr>"
           and ?options2.0 = "\<lparr> opt_ttl = None, skipCache = None \<rparr>"
           and g = replay
           and ?u2.0 = "\<lparr> clock = 300000, script = [Inr (JObject 2)] \<rparr>"]
      withCache_hit_within_ttl
        [where pf = test_platform and endpoint = "''erm2-nwe9''" and params = "''{}''"
           and requestFn = replay and options = "\<lparr> opt_ttl = None, skipCache = None \<rparr>"
           and qc = "[]" and u = "\<lparr> clock = 0, script = [Inr (JObject 1), Inr (JObject 2)] \<rparr>"
           and r = "\<lparr> res_data = JObject 1, cached = False, cacheKey = ''erm2-nwe9:{}'' \<rparr>"
           and n = 1
           and ?qc1.0 = "[(''erm2-nwe9:{}'', \<lparr> data = JObject 1, timestamp = 0, ttl = 300000 \<rparr>)]"
           and ?u1.0 = "\<lparr> clock = 0, script = [Inr (JObject 2)] \<rparr>"
           and ?options2.0 = "\<lparr> opt_ttl = None, skipCache = None \<rparr>"
           and g = replay
           and ?u2.0 = "\<lparr> clock = 300001, script = [Inr (JObject 2)] \<rparr>"
           and ?d2.0 = "JObject 2"
           and ?u3.0 = "\<lparr> clock = 300001, script = [] \<rparr>"]
    by (simp add: test_platform_def replay_def or_default_def CACHE_CONFIG_DEFAULT_TTL_def)
qed

text \<open>
  Claim C4 as it is written, for every producer, fails for a producer that returns a
  falsy value: the value is stored, the lookup of the second call returns it, and the
  test \<open>if (cached)\<close> takes it for a miss. Here both calls are made at time 0, the
  second on the cache and the world that the first has left.
\<close>

theorem withCache_falsy_result_counterexample:
  "withCache test_platform ''erm2-nwe9'' ''{}'' replay \<lparr> opt_ttl = None, skipCache = None \<rparr>
      ([], \<lparr> clock = 0, script = [Inr (JNum 0), Inr (JNum 0)] \<rparr>)
     = (Inr \<lparr> res_data = JNum 0, cached = False, cacheKey = ''erm2-nwe9:{}'' \<rparr>, 1,
        ([(''erm2-nwe9:{}'', \<lparr> data = JNum 0, timestamp = 0, ttl = 300000 \<rparr>)],
         \<lparr> clock = 0, script = [Inr (JNum 0)] \<rparr>))
   \<and> withCache test_platform ''erm2-nwe9'' ''{}'' replay \<lparr> opt_ttl = None, skipCache = None \<rparr>
      ([(''erm2-nwe9:{}'', \<lparr> data = JNum 0, timestamp = 0, ttl = 300000 \<rparr>)],
       \<lparr> clock = 0, script = [Inr (JNum 0)] \<rparr>)
     = (Inr \<lparr> res_data = JNum 0, cached = False, cacheKey = ''erm2-nwe9:{}'' \<rparr>, 1,
        ([(''erm2-nwe9:{}'', \<lparr> data = JNum 0, timestamp = 0, ttl = 300000 \<rparr>)],
         \<lparr> clock = 0, script = [] \<rparr>))"
  by (simp add: withCache_def getCached_def setCache_def getCacheKey_def test_platform_def
        replay_def or_default_def CACHE_CONFIG_DEFAULT_TTL_def CACHE_CONFIG_MAX_SIZE_def Let_def)

section \<open>Query cache when the producer throws: properties\<close>




section \<open>Auto-pagination: properties\<close>

lemma autoPaginate_loop_done:
  assumes "\<not> (page < maxP \<and> int (length allRecords) < maxR)"
  shows "autoPaginate_loop requestFn maxR pageS maxP allRecords offset page u =
           (Inr allRecords, 0, u)"
  using assms by (subst autoPaginate_loop.simps) auto

lemma autoPaginate_loop_throws:
  assumes "page < maxP" and "int (length allRecords) < maxR"
    and "requestFn offset pageS u = (Inl e, u1)"
  shows "autoPaginate_loop requestFn maxR pageS maxP allRecords offset page u = (Inl e, 1, u1)"
  using assms by (subst autoPaginate_loop.simps) simp

lemma autoPaginate_loop_no_page:
  assumes "page < maxP" and "int (length allRecords) < maxR"
    and "requestFn offset pageS u = (Inr p, u1)" and "p = None \<or> p = Some []"
  shows "autoPaginate_loop requestFn maxR pageS maxP allRecords offset page u =
           (Inr allRecords, 1, u1)"
  using assms by (subst autoPaginate_loop.simps) auto

lemma autoPaginate_loop_last_page:
  assumes "page < maxP" and "int (length allRecords) < maxR"
    and "requestFn offset pageS u = (Inr (Some recs), u1)" and "recs \<noteq> []"
    and "int (length (allRecords @ recs)) \<ge> maxR \<or> int (length recs) < pageS"
  shows "autoPaginate_loop requestFn maxR pageS maxP allRecords offset page u =
           (Inr (allRecords @ recs), 1, u1)"
  using assms by (subst autoPaginate_loop.simps) auto

lemma autoPaginate_loop_next_page:
  assumes "page < maxP" and "int (length allRecords) < maxR"
    and "requestFn offset pageS u = (Inr (Some recs), u1)" and "recs \<noteq> []"
    and "int (length (allRecords @ recs)) < maxR" and "int (length recs) \<ge> pageS"
  shows "autoPaginate_loop requestFn maxR pageS maxP allRecords offset page u =
           (case autoPaginate_loop requestFn maxR pageS maxP (allRecords @ recs)
                   (offset + pageS) (page + 1) u1 of
              (res, n, u2) \<Rightarrow> (res, Suc n, u2))"
  using assms by (subst autoPaginate_loop.simps) auto

lemma autoPaginate_loop_calls_bounded:
  "fst (snd (autoPaginate_loop requestFn maxR pageS maxP allRecords offset page u))
     \<le> nat (maxP - page)"
proof (induction requestFn maxR pageS maxP allRecords offset page u
        rule: autoPaginate_loop.induct)
  case (1 requestFn maxR pageS maxP allRecords offset page u)
  show ?case
  proof (cases "page < maxP \<and> int (length allRecords) < maxR")
    case False
    then show ?thesis
      by (simp add: autoPaginate_loop_done)
  next
    case True
    then have c: "page < maxP" "int (length allRecords) < maxR"
      by simp_all
    obtain r u1 where req: "requestFn offset pageS u = (r, u1)"
      by (cases "requestFn offset pageS u")
    show ?thesis
    proof (cases r)
      case (Inl e)
      with c req show ?thesis
        by (simp add: autoPaginate_loop_throws)
    next
      case (Inr p)
      show ?thesis
      proof (cases "p = None \<or> p = Some []")
        case True
        with c req Inr show ?thesis
          by (simp add: autoPaginate_loop_no_page)
      next
        case False
        then obtain recs where p: "p = Some recs" and ne: "recs \<noteq> []"
          by (cases p) auto
        show ?thesis
        proof (cases "int (length (allRecords @ recs)) \<ge> maxR \<or> int (length recs) < pageS")
          case True
          with c req Inr p ne show ?thesis
            by (simp add: autoPaginate_loop_last_page)
        next
          case more: False
          then have m: "int (length (allRecords @ recs)) < maxR" "int (length recs) \<ge> pageS"
            by simp_all
          have m1: "\<not> maxR \<le> int (length (allRecords @ recs))"
            and m2: "\<not> int (length recs) < pageS"
            using m by simp_all
          have IH: "fst (snd (autoPaginate_loop requestFn maxR pageS maxP (allRecords @ recs)
                      (offset + pageS) (page + 1) u1)) \<le> nat (maxP - (page + 1))"
            using m1 m2
            by (intro "1.IH" [where x = r and b = p]) (simp_all add: True req Inr p ne)
          obtain res n u2 where rest:
            "autoPaginate_loop requestFn maxR pageS maxP (allRecords @ recs)
               (offset + pageS) (page + 1) u1 = (res, n, u2)"
            by (metis prod_cases3)
          with IH have "n \<le> nat (maxP - (page + 1))"
            by simp
          with c have "Suc n \<le> nat (maxP - page)"
            by simp
          moreover have "autoPaginate_loop requestFn maxR pageS maxP allRecords offset page u
                           = (res, Suc n, u2)"
            using c req Inr p ne m rest by (simp add: autoPaginate_loop_next_page)
          ultimately show ?thesis
            by simp
        qed
      qed
    qed
  qed
qed

lemma autoPaginate_calls:
  "fst (snd (autoPaginate requestFn options u)) =
     fst (snd (autoPaginate_loop requestFn
        (or_default (maxRecords options) RATE_LIMITS_HARD_CAPS_max_limit)
        (or_default (pageSize options) 1000) (or_default (maxPages options) 10) [] 0 0 u))"
  by (simp add: autoPaginate_def Let_def split: prod.splits sum.splits)

lemma autoPaginate_calls_bounded:
  "int (fst (snd (autoPaginate requestFn options u))) \<le> max 0 (or_default (maxPages options) 10)"
proof -
  have "fst (snd (autoPaginate requestFn options u))
          \<le> nat (or_default (maxPages options) 10 - 0)"
    unfolding autoPaginate_calls by (rule autoPaginate_loop_calls_bounded)
  then show ?thesis
    by simp
qed

lemma length_slice0:
  assumes "0 \<le> n"
  shows "int (length (slice0 xs n)) \<le> n"
  using assms by (simp add: slice0_def)

lemma autoPaginate_length_bounded:
  assumes "autoPaginate requestFn options u = (Inr rs, n, u')"
  shows "int (length rs) \<le> max 0 (or_default (maxRecords options) RATE_LIMITS_HARD_CAPS_max_limit)"
proof -
  let ?maxR = "or_default (maxRecords options) RATE_LIMITS_HARD_CAPS_max_limit"
  let ?loop = "autoPaginate_loop requestFn ?maxR (or_default (pageSize options) 1000)
                 (or_default (maxPages options) 10) [] 0 0 u"
  from assms obtain allRecords where l: "?loop = (Inr allRecords, n, u')"
    and rs: "rs = slice0 allRecords ?maxR"
    by (auto simp: autoPaginate_def Let_def split: prod.splits sum.splits)
  show ?thesis
  proof (cases "0 < ?maxR")
    case True
    then show ?thesis
      using length_slice0 [of ?maxR allRecords] by (simp add: rs)
  next
    case False
    then have "?loop = (Inr [], 0, u)"
      by (simp add: autoPaginate_loop_done)
    with l have "allRecords = []"
      by simp
    then show ?thesis
      by (simp add: rs slice0_def)
  qed
qed

text \<open>
  Claim C8. \<open>autoPaginate\<close> always returns: it is a total function, its loop is defined
  by recursion on the pages left. It invokes the request function at most \<open>maxPages\<close>
  times, and an array that it returns has at most \<open>maxRecords\<close> records (none when a
  cap is not positive). In the loop, when the page just fetched is \<open>null\<close> or empty the
  loop ends with the records so far; when it is not empty and is shorter than
  \<open>pageSize\<close>, or brings the records to \<open>maxRecords\<close> or beyond, the loop ends with the
  records so far and that page; in both cases this fetch is the last invocation.
\<close>

theorem autoPaginate_bounded:
  "maxR = or_default (maxRecords options) RATE_LIMITS_HARD_CAPS_max_limit \<and>
   pageS = or_default (pageSize options) 1000 \<and> maxP = or_default (maxPages options) 10 \<longrightarrow>
     (\<exists>res n u'. autoPaginate requestFn options u = (res, n, u'))
     \<and> int (fst (snd (autoPaginate requestFn options u))) \<le> max 0 maxP
     \<and> (\<forall>rs n u'. autoPaginate requestFn options u = (Inr rs, n, u') \<longrightarrow>
           int (length rs) \<le> max 0 maxR)
     \<and> (page < maxP \<and> int (length allRecords) < maxR \<and>
        requestFn offset pageS v = (Inr p, v1) \<and> (p = None \<or> p = Some []) \<longrightarrow>
          autoPaginate_loop requestFn maxR pageS maxP allRecords offset page v =
            (Inr allRecords, 1, v1))
     \<and> (page < maxP \<and> int (length allRecords) < maxR \<and>
        requestFn offset pageS v = (Inr (Some recs), v1) \<and> recs \<noteq> [] \<and>
        (int (length (allRecords @ recs)) \<ge> maxR \<or> int (length recs) < pageS) \<longrightarrow>
          autoPaginate_loop requestFn maxR pageS maxP allRecords offset page v =
            (Inr (allRecords @ recs), 1, v1))"
proof (intro impI conjI allI)
  show "\<exists>res n u'. autoPaginate requestFn options u = (res, n, u')"
    by (metis prod_cases3)
next
  assume "maxR = or_default (maxRecords options) RATE_LIMITS_HARD_CAPS_max_limit \<and>
   pageS = or_default (pageSize options) 1000 \<and> maxP = or_default (maxPages options) 10"
  then show "int (fst (snd (autoPaginate requestFn options u))) \<le> max 0 maxP"
    using autoPaginate_calls_bounded [of requestFn options u] by simp
next
  fix rs n u'
  assume "maxR = or_default (maxRecords options) RATE_LIMITS_HARD_CAPS_max_limit \<and>
   pageS = or_default (pageSize options) 1000 \<and> maxP = or_default (maxPages options) 10"
    and "autoPaginate requestFn options u = (Inr rs, n, u')"
  then show "int (length rs) \<le> max 0 maxR"
    using autoPaginate_length_bounded [of requestFn options u rs n u'] by simp
next
  assume "page < maxP \<and> int (length allRecords) < maxR \<and>
        requestFn offset pageS v = (Inr p, v1) \<and> (p = None \<or> p = Some [])"
  then show "autoPaginate_loop requestFn maxR pageS maxP allRecords offset page v =
            (Inr allRecords, 1, v1)"
    using autoPaginate_loop_no_page [of page maxP allRecords maxR requestFn offset pageS v p v1]
    by blast
next
  assume "page < maxP \<and> int (length allRecords) < maxR \<and>
        requestFn offset pageS v = (Inr (Some recs), v1) \<and> recs \<noteq> [] \<and>
        (int (length (allRecords @ recs)) \<ge> maxR \<or> int (length recs) < pageS)"
  then show "autoPaginate_loop requestFn maxR pageS maxP allRecords offset page v =
            (Inr (allRecords @ recs), 1, v1)"
    using autoPaginate_loop_last_page
      [of page maxP allRecords maxR requestFn offset pageS v recs v1]
    by blast
qed

text \<open>
  Three runs on a source of seven rows with pages of three: the cap on the records cuts
  the second page, the cap on the pages ends the loop after two requests, and without
  either the short third page ends it.
\<close>

lemma autoPaginate_examples:
  "autoPaginate (page_source [1, 2, 3, 4, 5, 6, 7 :: int])
     \<lparr> maxRecords = Some 5, pageSize = Some 3, maxPages = None \<rparr> 0
     = (Inr [1, 2, 3, 4, 5], 2, 2)"
  "autoPaginate (page_source [1, 2, 3, 4, 5, 6, 7 :: int])
     \<lparr> maxRecords = None, pageSize = Some 3, maxPages = Some 2 \<rparr> 0
     = (Inr [1, 2, 3, 4, 5, 6], 2, 2)"
  "autoPaginate (page_source [1, 2, 3, 4, 5, 6, 7 :: int])
     \<lparr> maxRecords = None, pageSize = Some 3, maxPages = None \<rparr> 0
     = (Inr [1, 2, 3, 4, 5, 6, 7], 3, 3)"
  by (simp_all add: autoPaginate_def autoPaginate_loop.simps page_source_def or_default_def
        slice0_def RATE_LIMITS_HARD_CAPS_max_limit_def Let_def)

theorem autoPaginate_bounded_witness:
  "int (fst (snd (autoPaginate (page_source [1, 2, 3, 4, 5, 6, 7 :: int])
      \<lparr> maxRecords = Some 5, pageSize = Some 3, maxPages = Some 2 \<rparr> 0))) \<le> 2
   \<and> autoPaginate (page_source [1, 2, 3, 4, 5, 6, 7 :: int])
      \<lparr> maxRecords = Some 5, pageSize = Some 3, maxPages = Some 2 \<rparr> 0
     = (Inr [1, 2, 3, 4, 5], 2, 2)
   \<and> autoPaginate_loop (page_source [1, 2, 3, 4, 5, 6, 7 :: int]) 5 3 2 [1, 2, 3] 3 1 1
     = (Inr [1, 2, 3, 4, 5, 6], 1, 2)"
proof -
  have run: "autoPaginate (page_source [1, 2, 3, 4, 5, 6, 7 :: int])
      \<lparr> maxRecords = Some 5, pageSize = Some 3, maxPages = Some 2 \<rparr> 0
     = (Inr [1, 2, 3, 4, 5], 2, 2)"
    by (simp add: autoPaginate_def autoPaginate_loop.simps page_source_def or_default_def
          slice0_def Let_def)
  show ?thesis
    using run
      autoPaginate_bounded
        [where options = "\<lparr> maxRecords = Some 5, pageSize = Some 3, maxPages = Some 2 \<rparr>"
           and maxR = 5 and pageS = 3 and maxP = 2
           and requestFn = "page_source [1, 2, 3, 4, 5, 6, 7 :: int]" and u = 0
           and page = 1 and allRecords = "[1, 2, 3]" and offset = 3 and v = 1
           and recs = "[4, 5, 6]" and ?v1.0 = 2 and p = "Some [4, 5, 6]"]
    by (simp add: or_default_def page_source_def)
qed

end
